theory Spec2Isabelle
  imports Complex_Main
begin

section \<open>Python values and exceptions\<close>

text \<open>
  The exceptions that the modelled code can meet.  \<open>KeyboardInterrupt\<close> is kept apart:
  it derives from \<open>BaseException\<close>, so no \<open>except Exception\<close> clause of the source
  catches it.
\<close>

datatype pyexc =
    ValueError string
  | TypeError string
  | KeyError string
  | AttributeError string
  | JSONDecodeError
  | RequestError string

section \<open>Chunking (\<open>chunk_data\<close> in \<open>sync.py\<close>)\<close>

text \<open>
  \<^verbatim>\<open>
  def chunk_data(data_list, chunk_size=1000):
      for i in range(0, len(data_list), chunk_size):
          yield data_list[i:i + chunk_size]
  \<close>
  \<open>range\<close> with a positive step counts up while below the stop, with a negative step it
  counts down while above it, and it raises \<open>ValueError\<close> for a zero step.
\<close>

function range_up :: "int \<Rightarrow> int \<Rightarrow> int \<Rightarrow> int list" where
  "range_up i stop step =
     (if 0 < step \<and> i < stop then i # range_up (i + step) stop step else [])"
  by pat_completeness auto
termination
  by (relation "measure (\<lambda>(i, stop, step). nat (stop - i))") auto

function range_down :: "int \<Rightarrow> int \<Rightarrow> int \<Rightarrow> int list" where
  "range_down i stop step =
     (if step < 0 \<and> stop < i then i # range_down (i + step) stop step else [])"
  by pat_completeness auto
termination
  by (relation "measure (\<lambda>(i, stop, step). nat (i - stop))") auto

declare range_up.simps [simp del] range_down.simps [simp del]

definition py_range :: "int \<Rightarrow> int \<Rightarrow> int \<Rightarrow> pyexc + int list" where
  "py_range start stop step =
     (if step = 0 then Inl (ValueError ''range() arg 3 must not be zero'')
      else if 0 < step then Inr (range_up start stop step)
      else Inr (range_down start stop step))"

text \<open>
  A slice \<open>xs[i:j]\<close>: a negative bound counts from the end, and both bounds are clipped
  to the list.
\<close>

definition slice_bound :: "nat \<Rightarrow> int \<Rightarrow> nat" where
  "slice_bound n k = (if k < 0 then nat (max (k + int n) 0) else min (nat k) n)"

definition py_slice :: "'a list \<Rightarrow> int \<Rightarrow> int \<Rightarrow> 'a list" where
  "py_slice xs i j =
     (let a = slice_bound (length xs) i; b = slice_bound (length xs) j
      in take (b - a) (drop a xs))"

definition chunk_data :: "'a list \<Rightarrow> int \<Rightarrow> pyexc + 'a list list" where
  "chunk_data data_list chunk_size =
     (case py_range 0 (int (length data_list)) chunk_size of
        Inl e \<Rightarrow> Inl e
      | Inr starts \<Rightarrow> Inr (map (\<lambda>i. py_slice data_list i (i + chunk_size)) starts))"

section \<open>The value normalizer (\<open>DecimalEncoder\<close> in \<open>sync.py\<close>)\<close>

subsection \<open>Scalar values of a row\<close>

text \<open>
  A Python \<open>float\<close> is an IEEE 754 binary64 value: \<open>Finite s m e\<close> stands for
  \<open>(-1)\<^sup>s \<sqdot> m \<sqdot> 2\<^sup>e\<close> in its canonical form (a normal number has
  \<open>2\<^sup>5\<^sup>2 \<le> m < 2\<^sup>5\<^sup>3\<close>, a subnormal one and zero have \<open>e = -1074\<close>).
  A \<open>Decimal\<close> read from the database is finite: \<open>Decimal s c e\<close> stands for
  \<open>(-1)\<^sup>s \<sqdot> c \<sqdot> 10\<^sup>e\<close>.
\<close>

datatype pyfloat = Finite bool nat int | Infinity bool | NaN

datatype decimal = Decimal bool nat int

record date =
  year :: nat
  month :: nat
  day :: nat

record datetime = date +
  hour :: nat
  minute :: nat
  second :: nat
  microsecond :: nat

datatype pyval =
    PNone
  | PBool bool
  | PInt int
  | PFloat pyfloat
  | PStr string
  | PDecimal decimal
  | PDate date
  | PDatetime datetime
  | PObject string  \<comment> \<open>any other object (bytes, time, UUID), named by its type\<close>

subsection \<open>\<open>float(obj)\<close> on a \<open>Decimal\<close>\<close>

text \<open>
  \<open>float\<close> of a decimal is the binary64 value nearest to it, ties going to the even
  mantissa; a value too large for the format becomes infinity.  The decimal is the
  fraction \<open>a / b\<close> of two naturals.
\<close>

fun bit_length :: "nat \<Rightarrow> nat" where
  "bit_length n = (if n = 0 then 0 else Suc (bit_length (n div 2)))"

declare bit_length.simps [simp del]

definition scale2 :: "nat \<Rightarrow> nat \<Rightarrow> int \<Rightarrow> nat \<times> nat" where
  "scale2 a b e = (if 0 \<le> e then (a, b * 2 ^ nat e) else (a * 2 ^ nat (- e), b))"

definition floor_log2 :: "nat \<Rightarrow> nat \<Rightarrow> int" where
  "floor_log2 a b =
     (let k0 = int (bit_length a) - int (bit_length b)
      in case scale2 a b k0 of (a', b') \<Rightarrow> if b' \<le> a' then k0 else k0 - 1)"

definition round_half_even :: "nat \<Rightarrow> nat \<Rightarrow> nat" where
  "round_half_even a b =
     (let q = a div b; r = a mod b
      in if 2 * r < b then q else if b < 2 * r then q + 1
         else if even q then q else q + 1)"

definition float_of_ratio :: "bool \<Rightarrow> nat \<Rightarrow> nat \<Rightarrow> pyfloat" where
  "float_of_ratio s a b =
     (if a = 0 then Finite s 0 (- 1074)
      else
        let e = max (floor_log2 a b - 52) (- 1074);
            m = (case scale2 a b e of (a', b') \<Rightarrow> round_half_even a' b');
            e' = (if m = 2 ^ 53 then e + 1 else e);
            m' = (if m = 2 ^ 53 then 2 ^ 52 else m)
        in if 971 < e' then Infinity s else Finite s m' e')"

definition float_of_decimal :: "decimal \<Rightarrow> pyfloat" where
  "float_of_decimal d =
     (case d of Decimal s c e \<Rightarrow>
        if 0 \<le> e then float_of_ratio s (c * 10 ^ nat e) 1
        else float_of_ratio s c (10 ^ nat (- e)))"

text \<open>The rational number a finite float stands for.\<close>

definition float_value :: "pyfloat \<Rightarrow> rat option" where
  "float_value f =
     (case f of
        Finite s m e \<Rightarrow>
          Some ((if s then - 1 else 1) * of_nat m *
                (if 0 \<le> e then 2 ^ nat e else 1 / 2 ^ nat (- e)))
      | Infinity s \<Rightarrow> None
      | NaN \<Rightarrow> None)"

subsection \<open>\<open>isoformat()\<close> of dates and timestamps\<close>

fun digits :: "nat \<Rightarrow> string" where
  "digits n =
     (if n < 10 then [''0123456789'' ! n]
      else digits (n div 10) @ [''0123456789'' ! (n mod 10)])"

declare digits.simps [simp del]

definition zero_pad :: "nat \<Rightarrow> nat \<Rightarrow> string" where
  "zero_pad w n = replicate (w - length (digits n)) CHR ''0'' @ digits n"

definition date_isoformat :: "'a date_scheme \<Rightarrow> string" where
  "date_isoformat d =
     zero_pad 4 (year d) @ ''-'' @ zero_pad 2 (month d) @ ''-'' @ zero_pad 2 (day d)"

text \<open>
  The timestamps that the database driver returns are naive (no time zone), so the
  string has no offset; the fraction appears only when the microseconds are not zero.
\<close>

definition datetime_isoformat :: "datetime \<Rightarrow> string" where
  "datetime_isoformat t =
     date_isoformat t @ ''T'' @ zero_pad 2 (hour t) @ '':'' @ zero_pad 2 (minute t) @ '':'' @
     zero_pad 2 (second t) @
     (if microsecond t = 0 then [] else ''.'' @ zero_pad 6 (microsecond t))"

subsection \<open>\<open>DecimalEncoder.default\<close> and the encoder's dispatch\<close>

text \<open>
  \<^verbatim>\<open>
  def default(self, obj):
      if isinstance(obj, Decimal):
          return float(obj)
      elif isinstance(obj, date):
          return obj.isoformat()
      elif isinstance(obj, datetime):
          return obj.isoformat()
      return super(DecimalEncoder, self).default(obj)
  \<close>
  \<open>datetime\<close> is a subclass of \<open>date\<close>, so a timestamp is caught by the second test
  already; \<open>isoformat\<close> is the method of the object's own class either way.  The
  inherited \<open>default\<close> raises \<open>TypeError\<close>.
\<close>

definition default_enc :: "pyval \<Rightarrow> pyexc + pyval" where
  "default_enc obj =
     (case obj of
        PDecimal d \<Rightarrow> Inr (PFloat (float_of_decimal d))
      | PDate d \<Rightarrow> Inr (PStr (date_isoformat d))
      | PDatetime t \<Rightarrow> Inr (PStr (datetime_isoformat t))
      | _ \<Rightarrow> Inl (TypeError ''Object is not JSON serializable''))"

text \<open>
  \<open>json.JSONEncoder\<close> writes \<open>None\<close>, booleans, integers, floats and strings itself
  and calls \<open>default\<close> only for a value of another type, whose result it then encodes.
\<close>

fun json_native :: "pyval \<Rightarrow> bool" where
  "json_native PNone = True"
| "json_native (PBool b) = True"
| "json_native (PInt i) = True"
| "json_native (PFloat f) = True"
| "json_native (PStr s) = True"
| "json_native _ = False"

definition normalize_value :: "pyval \<Rightarrow> pyexc + pyval" where
  "normalize_value v = (if json_native v then Inr v else default_enc v)"

type_synonym row = "(string \<times> pyval) list"

fun traverse :: "('a \<Rightarrow> pyexc + 'b) \<Rightarrow> 'a list \<Rightarrow> pyexc + 'b list" where
  "traverse f [] = Inr []"
| "traverse f (x # xs) =
     (case f x of
        Inl e \<Rightarrow> Inl e
      | Inr y \<Rightarrow> (case traverse f xs of Inl e \<Rightarrow> Inl e | Inr ys \<Rightarrow> Inr (y # ys)))"

definition normalize_row :: "row \<Rightarrow> pyexc + row" where
  "normalize_row r =
     traverse (\<lambda>(k, v). case normalize_value v of Inl e \<Rightarrow> Inl e | Inr w \<Rightarrow> Inr (k, w)) r"

section \<open>The batch transfer engine (\<open>sync_data_to_api\<close> in \<open>sync.py\<close>)\<close>

subsection \<open>Requests, responses and the trace of a run\<close>

record payload =
  database :: string
  table :: string
  data :: "row list"

text \<open>
  \<open>json.dumps(payload, cls=DecimalEncoder)\<close>: the body on the wire is the payload with
  every value normalized; it raises where a value cannot be serialized.
\<close>

definition json_dumps :: "payload \<Rightarrow> pyexc + payload" where
  "json_dumps p =
     (case traverse normalize_row (data p) of
        Inl e \<Rightarrow> Inl e
      | Inr rows \<Rightarrow> Inr (p\<lparr>data := rows\<rparr>))"

datatype json =
    JNull
  | JBool bool
  | JInt int
  | JFloat pyfloat
  | JStr string
  | JArr "json list"
  | JObj "(string \<times> json) list"

record response =
  status_code :: int
  body_text :: string
  json_body :: "json option"  \<comment> \<open>what \<open>response.json()\<close> returns; \<open>None\<close> when it raises\<close>

text \<open>
  What one call of \<open>requests.post\<close> can do: return a response, raise an exception of
  the transport layer, or be cut short by the user's \<open>KeyboardInterrupt\<close>.  The
  environment of a run gives the outcome of the \<open>k\<close>-th call.
\<close>

datatype outcome = Response response | Raise pyexc | Interrupt

type_synonym env = "nat \<Rightarrow> outcome"

datatype log =
    NoData nat string
  | Syncing nat nat string
  | ApiError json
  | ValidationErrors json
  | RetryStatus nat int
  | ErrorDetails json
  | ResponseText string
  | RetryError nat pyexc
  | FailedToSync string
  | Synced string
  | SyncError pyexc

datatype event = Post string payload | Sleep nat | Print log

record sync_state =
  calls :: nat
  trace :: "event list"

definition emit :: "event \<Rightarrow> sync_state \<Rightarrow> sync_state" where
  "emit ev st = st\<lparr>trace := trace st @ [ev]\<rparr>"

text \<open>
  How a block of statements ends: normally with a value, with an exception that an
  \<open>except Exception\<close> clause catches, or with a \<open>KeyboardInterrupt\<close> that none does.
\<close>

datatype 'a result = Ok 'a | Exc pyexc | Interrupted

subsection \<open>Reading the response body\<close>

fun truthy :: "json \<Rightarrow> bool" where
  "truthy JNull = False"
| "truthy (JBool b) = b"
| "truthy (JInt i) = (i \<noteq> 0)"
| "truthy (JFloat f) = (case f of Finite s m e \<Rightarrow> m \<noteq> 0 | _ \<Rightarrow> True)"
| "truthy (JStr s) = (s \<noteq> [])"
| "truthy (JArr xs) = (xs \<noteq> [])"
| "truthy (JObj kvs) = (kvs \<noteq> [])"

text \<open>\<open>d.get(key, default)\<close>: only a dict has the method.\<close>

fun dict_get :: "json \<Rightarrow> string \<Rightarrow> json \<Rightarrow> pyexc + json" where
  "dict_get (JObj kvs) k dflt = Inr (case map_of kvs k of Some v \<Rightarrow> v | None \<Rightarrow> dflt)"
| "dict_get _ k dflt = Inl (AttributeError ''get'')"

text \<open>\<open>key in d\<close> and \<open>d[key]\<close>, used on a value that \<open>get\<close> has shown to be a dict.\<close>

fun key_in :: "json \<Rightarrow> string \<Rightarrow> bool" where
  "key_in (JObj kvs) k = (map_of kvs k \<noteq> None)"
| "key_in _ k = False"

fun dict_index :: "json \<Rightarrow> string \<Rightarrow> pyexc + json" where
  "dict_index (JObj kvs) k = (case map_of kvs k of Some v \<Rightarrow> Inr v | None \<Rightarrow> Inl (KeyError k))"
| "dict_index _ k = Inl (TypeError ''subscript'')"

text \<open>\<open>v[:2]\<close>: lists and strings can be sliced, other values raise.\<close>

fun first_two :: "json \<Rightarrow> pyexc + json" where
  "first_two (JArr xs) = Inr (JArr (take 2 xs))"
| "first_two (JStr s) = Inr (JStr (take 2 s))"
| "first_two _ = Inl (TypeError ''slice'')"

subsection \<open>One attempt, the retry loop, the chunk loop and the table loop\<close>

text \<open>
  The body of the \<open>try\<close> statement of one attempt.  \<open>Ok True\<close> is the \<open>break\<close> with
  \<open>success = True\<close>; \<open>Ok False\<close> falls through to the next round of the retry loop.
  Progress bars and banners are presentation only and are left out of the trace.
\<close>

definition try_body :: "env \<Rightarrow> string \<Rightarrow> payload \<Rightarrow> nat \<Rightarrow> sync_state \<Rightarrow> bool result \<times> sync_state" where
  "try_body env sync_endpoint p retry st =
     (case json_dumps p of
        Inl e \<Rightarrow> (Exc e, st)
      | Inr body \<Rightarrow>
          let st1 = emit (Post sync_endpoint body) (st\<lparr>calls := calls st + 1\<rparr>)
          in case env (calls st) of
               Interrupt \<Rightarrow> (Interrupted, st1)
             | Raise e \<Rightarrow> (Exc e, st1)
             | Response r \<Rightarrow>
                 if status_code r = 200 then
                   (case json_body r of
                      None \<Rightarrow> (Exc JSONDecodeError, st1)
                    | Some response_data \<Rightarrow>
                        (case dict_get response_data ''success'' (JBool False) of
                           Inl e \<Rightarrow> (Exc e, st1)
                         | Inr s \<Rightarrow>
                             if truthy s then (Ok True, st1)
                             else
                               (case dict_get response_data ''error'' (JStr ''Unknown error'') of
                                  Inl e \<Rightarrow> (Exc e, st1)
                                | Inr err \<Rightarrow>
                                    let st2 = emit (Print (ApiError err)) st1
                                    in if key_in response_data ''validation_errors'' then
                                         (case dict_index response_data ''validation_errors'' of
                                            Inl e \<Rightarrow> (Exc e, st2)
                                          | Inr ve \<Rightarrow>
                                              (case first_two ve of
                                                 Inl e \<Rightarrow> (Exc e, st2)
                                               | Inr shown \<Rightarrow>
                                                   (Ok False,
                                                    emit (Print (ValidationErrors shown)) st2)))
                                       else (Ok False, st2))))
                 else
                   let st2 = emit (Print (RetryStatus (retry + 1) (status_code r))) st1;
                       st3 = (case json_body r of
                                Some error_data \<Rightarrow> emit (Print (ErrorDetails error_data)) st2
                              | None \<Rightarrow> emit (Print (ResponseText (take 200 (body_text r)))) st2)
                   in (Ok False, emit (Sleep 2) st3))"

text \<open>
  The whole attempt: the \<open>except Exception\<close> clause turns every exception of the body
  into a logged, failed attempt followed by the pause of two seconds.
\<close>

definition attempt :: "env \<Rightarrow> string \<Rightarrow> payload \<Rightarrow> nat \<Rightarrow> sync_state \<Rightarrow> bool result \<times> sync_state" where
  "attempt env sync_endpoint p retry st =
     (case try_body env sync_endpoint p retry st of
        (Exc e, st') \<Rightarrow> (Ok False, emit (Sleep 2) (emit (Print (RetryError (retry + 1) e)) st'))
      | (r, st') \<Rightarrow> (r, st'))"

text \<open>
  \<^verbatim>\<open>
  success = False
  for retry in range(3):
      ...
  \<close>
  The loop runs over the values of \<open>range(3)\<close>; its result is the flag \<open>success\<close>.
\<close>

fun retry_loop :: "env \<Rightarrow> string \<Rightarrow> payload \<Rightarrow> nat list \<Rightarrow> sync_state \<Rightarrow> bool result \<times> sync_state" where
  "retry_loop env sync_endpoint p [] st = (Ok False, st)"
| "retry_loop env sync_endpoint p (retry # rest) st =
     (case attempt env sync_endpoint p retry st of
        (Ok success, st') \<Rightarrow>
          if success then (Ok True, st') else retry_loop env sync_endpoint p rest st'
      | (r, st') \<Rightarrow> (r, st'))"

record config =
  api_url :: "string option"  \<comment> \<open>\<open>config['api']['url']\<close>; \<open>None\<close> when a key is missing\<close>
  api_key :: "string option"  \<comment> \<open>\<open>config['api']['key']\<close>\<close>
  target_database :: "string option"

definition make_payload :: "config \<Rightarrow> string \<Rightarrow> row list \<Rightarrow> payload" where
  "make_payload cfg table_name chunk =
     \<lparr>database = (case target_database cfg of Some d \<Rightarrow> d | None \<Rightarrow> ''OMEGA''),
      table = table_name,
      data = chunk\<rparr>"

text \<open>
  The loop over the chunks of one table.  \<open>Ok None\<close>: every chunk was sent and the loop
  ended; \<open>Ok (Some b)\<close>: the enclosing function returned \<open>b\<close>.
\<close>

fun sync_chunks ::
  "env \<Rightarrow> string \<Rightarrow> config \<Rightarrow> string \<Rightarrow> row list list \<Rightarrow> sync_state \<Rightarrow> bool option result \<times> sync_state" where
  "sync_chunks env sync_endpoint cfg table_name [] st = (Ok None, st)"
| "sync_chunks env sync_endpoint cfg table_name (chunk # rest) st =
     (case retry_loop env sync_endpoint (make_payload cfg table_name chunk) [0, 1, 2] st of
        (Ok success, st') \<Rightarrow>
          if \<not> success then (Ok (Some False), emit (Print (FailedToSync table_name)) st')
          else sync_chunks env sync_endpoint cfg table_name rest st'
      | (Exc e, st') \<Rightarrow> (Exc e, st')
      | (Interrupted, st') \<Rightarrow> (Interrupted, st'))"

definition tables_to_sync :: "string list" where
  "tables_to_sync =
     [''acc_product'', ''acc_invmast'', ''acc_invdetails'', ''acc_purchasemaster'',
      ''acc_purchasedetails'', ''acc_production'', ''acc_productiondetails'']"

text \<open>The loop over \<open>enumerate(tables_to_sync, 1)\<close>.\<close>

fun sync_tables ::
  "env \<Rightarrow> string \<Rightarrow> config \<Rightarrow> (string \<rightharpoonup> row list) \<Rightarrow> (nat \<times> string) list \<Rightarrow> sync_state
     \<Rightarrow> bool option result \<times> sync_state" where
  "sync_tables env sync_endpoint cfg dat [] st = (Ok None, st)"
| "sync_tables env sync_endpoint cfg dat ((table_index, table_name) # rest) st =
     (case dat table_name of
        None \<Rightarrow> sync_tables env sync_endpoint cfg dat rest st
      | Some table_data \<Rightarrow>
          if table_data = [] then
            sync_tables env sync_endpoint cfg dat rest (emit (Print (NoData table_index table_name)) st)
          else
            let st1 = emit (Print (Syncing table_index (length table_data) table_name)) st
            in case chunk_data table_data 1000 of
                 Inl e \<Rightarrow> (Exc e, st1)
               | Inr chunks \<Rightarrow>
                   (case sync_chunks env sync_endpoint cfg table_name chunks st1 of
                      (Ok None, st2) \<Rightarrow>
                        sync_tables env sync_endpoint cfg dat rest (emit (Print (Synced table_name)) st2)
                    | (r, st2) \<Rightarrow> (r, st2)))"

definition initial_state :: sync_state where
  "initial_state = \<lparr>calls = 0, trace = []\<rparr>"

text \<open>
  \<open>sync_data_to_api\<close>: the outer \<open>except Exception\<close> clause reports the exception and
  returns \<open>False\<close>; a \<open>KeyboardInterrupt\<close> leaves the function.
\<close>

definition sync_data_to_api :: "(string \<rightharpoonup> row list) \<Rightarrow> config \<Rightarrow> env \<Rightarrow> bool result \<times> sync_state" where
  "sync_data_to_api dat cfg env =
     (case api_url cfg of
        None \<Rightarrow> (Ok False, emit (Print (SyncError (KeyError ''url''))) initial_state)
      | Some api_base_url \<Rightarrow>
          (case sync_tables env (api_base_url @ ''/api/sync'') cfg dat
                  (zip [1 ..< Suc (length tables_to_sync)] tables_to_sync) initial_state of
             (Ok None, st) \<Rightarrow> (Ok True, st)
           | (Ok (Some b), st) \<Rightarrow> (Ok b, st)
           | (Exc e, st) \<Rightarrow> (Ok False, emit (Print (SyncError e)) st)
           | (Interrupted, st) \<Rightarrow> (Interrupted, st)))"

subsection \<open>The run (\<open>main\<close> in \<open>sync.py\<close>)\<close>

text \<open>
  \<open>main\<close> loads the configuration, connects, fetches, synchronizes, closes the connection
  and exits.  \<open>load_config\<close> and \<open>connect_to_database\<close> exit with code 1 on their own
  errors.  The rows that \<open>fetch_data\<close> reads are an input of the model, as is an
  exception or interrupt that ends the reading.
\<close>

datatype conn_state = NotConnected | Connected | Closed

record run =
  exit_code :: int
  connection :: conn_state
  events :: "event list"

definition main ::
  "config option \<Rightarrow> bool \<Rightarrow> (string \<rightharpoonup> row list) result \<Rightarrow> env \<Rightarrow> run" where
  "main loaded connects fetched env =
     (case loaded of
        None \<Rightarrow> \<lparr>exit_code = 1, connection = NotConnected, events = []\<rparr>
      | Some cfg \<Rightarrow>
          if \<not> connects then \<lparr>exit_code = 1, connection = NotConnected, events = []\<rparr>
          else
            (case fetched of
               Interrupted \<Rightarrow> \<lparr>exit_code = 1, connection = Connected, events = []\<rparr>
             | Exc e \<Rightarrow> \<lparr>exit_code = 1, connection = Connected, events = []\<rparr>
             | Ok dat \<Rightarrow>
                 (case sync_data_to_api dat cfg env of
                    (Ok success, st) \<Rightarrow>
                      \<lparr>exit_code = (if success then 0 else 1), connection = Closed,
                       events = trace st\<rparr>
                  | (Exc e, st) \<Rightarrow>
                      \<lparr>exit_code = 1, connection = Connected, events = trace st\<rparr>
                  | (Interrupted, st) \<Rightarrow>
                      \<lparr>exit_code = 1, connection = Connected, events = trace st\<rparr>)))"

section \<open>The diagnostics probe (\<open>test_api_endpoints\<close> in \<open>run_diagnostics.py\<close>)\<close>

datatype http_verb = OPTIONS | GET | HEAD | POST | DELETE

text \<open>
  The exceptions of \<open>requests\<close> by class: \<open>ConnectTimeout\<close> derives from both
  \<open>ConnectionError\<close> and \<open>Timeout\<close>, the others from one of them or from neither.
\<close>

datatype request_error = ReadTimeout | ConnectTimeout | ConnectionError | OtherError string

fun is_Timeout :: "request_error \<Rightarrow> bool" where
  "is_Timeout ReadTimeout = True"
| "is_Timeout ConnectTimeout = True"
| "is_Timeout _ = False"

fun is_ConnectionError :: "request_error \<Rightarrow> bool" where
  "is_ConnectionError ConnectTimeout = True"
| "is_ConnectionError ConnectionError = True"
| "is_ConnectionError _ = False"

fun error_text :: "request_error \<Rightarrow> string" where
  "error_text (OtherError msg) = msg"
| "error_text ReadTimeout = ''Read timed out''"
| "error_text ConnectTimeout = ''Connect timed out''"
| "error_text ConnectionError = ''Connection error''"

datatype probe_outcome = Responded int string | Failed request_error

type_synonym probe_env = "nat \<Rightarrow> probe_outcome"

record probe_result =
  endpoint :: string
  http_method :: string
  probe_code :: "int option"
  status :: string
  debug_mode :: bool

text \<open>
  The state of the probe loop: the number of requests made, the requests sent, the
  results appended so far, and the variables \<open>response\<close> and \<open>status\<close>, which keep
  their values from one round of the loop to the next.
\<close>

record probe_state =
  probes :: nat
  sent :: "(http_verb \<times> string) list"
  results :: "probe_result list"
  bound :: "(int \<times> string \<times> string) option"

definition endpoints :: "(string \<times> string \<times> string) list" where
  "endpoints =
     [(''/api/sync/products/clear'', ''DELETE'', ''Clear products''),
      (''/api/sync/products'', ''POST'', ''Sync products''),
      (''/api/sync/productbatches/clear'', ''DELETE'', ''Clear product batches''),
      (''/api/sync/productbatches'', ''POST'', ''Sync product batches''),
      (''/api/sync/masters/clear'', ''DELETE'', ''Clear masters''),
      (''/api/sync/masters'', ''POST'', ''Sync masters''),
      (''/api/sync/users/clear'', ''DELETE'', ''Clear users''),
      (''/api/sync/users'', ''POST'', ''Sync users'')]"

text \<open>\<open>needle in haystack\<close> on strings.\<close>

fun substring :: "string \<Rightarrow> string \<Rightarrow> bool" where
  "substring needle [] = (needle = [])"
| "substring needle (c # cs) = (take (length needle) (c # cs) = needle \<or> substring needle cs)"

text \<open>
  \<open>requests.options(url, headers=headers, timeout=5)\<close> is called without
  \<open>allow_redirects=False\<close>, so the library follows redirects.  A response with status
  301, 302, 303, 307 or 308 and a \<open>Location\<close> header is answered with a further request
  to that location, at most 30 times in one call; the verb of the further request is
  \<open>GET\<close> after a 302 or 303 (and after a 301 to a \<open>POST\<close>), and the verb of the
  request before otherwise.  The call returns the last response, or raises.
\<close>

definition is_redirect :: "int \<Rightarrow> bool" where
  "is_redirect code = (code = 301 \<or> code = 302 \<or> code = 303 \<or> code = 307 \<or> code = 308)"

definition rebuild_method :: "int \<Rightarrow> http_verb \<Rightarrow> http_verb" where
  "rebuild_method code verb =
     (if code = 303 \<and> verb \<noteq> HEAD then GET
      else if code = 302 \<and> verb \<noteq> HEAD then GET
      else if code = 301 \<and> verb = POST then GET
      else verb)"

fun follow_redirects :: "http_verb \<Rightarrow> (int \<times> string) list \<Rightarrow> (http_verb \<times> string) list" where
  "follow_redirects verb [] = []"
| "follow_redirects verb ((code, location) # hops) =
     (rebuild_method code verb, location) # follow_redirects (rebuild_method code verb) hops"

text \<open>
  Besides the outcome of the \<open>k\<close>-th call, the environment gives the redirects that the
  call meets on its way: the status and the location of each redirecting response.
  Every request that the call puts on the wire is recorded, the first one and those
  that follow redirects.  The outcome of the call is its last response or the
  exception it raises (\<open>TooManyRedirects\<close>, when the limit of 30 is reached, is one of
  the other exceptions).
\<close>

type_synonym redirects = "nat \<Rightarrow> (int \<times> string) list"

definition requests_options ::
  "probe_env \<Rightarrow> redirects \<Rightarrow> string \<Rightarrow> probe_state \<Rightarrow> probe_outcome \<times> probe_state" where
  "requests_options env hops url st =
     (env (probes st),
      st\<lparr>probes := probes st + 1,
         sent := sent st @ (OPTIONS, url) #
           follow_redirects OPTIONS
             (take 30 (takeWhile (\<lambda>h. is_redirect (fst h)) (hops (probes st))))\<rparr>)"

text \<open>
  One round of the loop.  Both branches call \<open>requests.options\<close>.  For a method that
  is neither \<open>DELETE\<close> nor \<open>POST\<close> no request is sent and the round reads \<open>response\<close>
  and \<open>status\<close> as the rounds before left them (a \<open>NameError\<close> when there was none).
\<close>

definition record_error :: "string \<Rightarrow> string \<Rightarrow> string \<Rightarrow> probe_state \<Rightarrow> probe_state" where
  "record_error e m s st =
     st\<lparr>results := results st @
           [\<lparr>endpoint = e, http_method = m, probe_code = None, status = s, debug_mode = False\<rparr>]\<rparr>"

definition record_response :: "string \<Rightarrow> string \<Rightarrow> int \<times> string \<times> string \<Rightarrow> probe_state \<Rightarrow> probe_state" where
  "record_response e m b st =
     (case b of (code, body, s) \<Rightarrow>
        st\<lparr>results := results st @
              [\<lparr>endpoint = e, http_method = m, probe_code = Some code, status = s,
                debug_mode = substring ''<code>DEBUG = True</code>'' body\<rparr>],
           bound := Some b\<rparr>)"

definition handle_error :: "string \<Rightarrow> string \<Rightarrow> request_error \<Rightarrow> probe_state \<Rightarrow> probe_state" where
  "handle_error e m err st =
     (if is_Timeout err then record_error e m ''TIMEOUT'' st
      else if is_ConnectionError err then record_error e m ''CONNECTION ERROR'' st
      else record_error e m (''ERROR: '' @ error_text err) st)"

definition probe_endpoint ::
  "probe_env \<Rightarrow> redirects \<Rightarrow> string \<Rightarrow> string \<times> string \<times> string \<Rightarrow> probe_state \<Rightarrow> probe_state" where
  "probe_endpoint env hops api_base_url ep st =
     (case ep of (e, m, description) \<Rightarrow>
        let url = api_base_url @ e
        in if m = ''DELETE'' then
             (case requests_options env hops url st of
                (Responded code body, st') \<Rightarrow>
                  record_response e m (code, body, if code < 500 then ''AVAILABLE'' else ''ERROR'') st'
              | (Failed err, st') \<Rightarrow> handle_error e m err st')
           else if m = ''POST'' then
             (case requests_options env hops url st of
                (Responded code body, st') \<Rightarrow>
                  record_response e m (code, body, if code < 500 then ''AVAILABLE'' else ''ERROR'') st'
              | (Failed err, st') \<Rightarrow> handle_error e m err st')
           else
             (case bound st of
                Some b \<Rightarrow> record_response e m b st
              | None \<Rightarrow> handle_error e m (OtherError ''name response is not defined'') st))"

fun probe_all ::
  "probe_env \<Rightarrow> redirects \<Rightarrow> string \<Rightarrow> (string \<times> string \<times> string) list \<Rightarrow> probe_state
     \<Rightarrow> probe_state" where
  "probe_all env hops api_base_url [] st = st"
| "probe_all env hops api_base_url (ep # eps) st =
     probe_all env hops api_base_url eps (probe_endpoint env hops api_base_url ep st)"

definition probe_start :: probe_state where
  "probe_start = \<lparr>probes = 0, sent = [], results = [], bound = None\<rparr>"

text \<open>
  \<open>test_api_endpoints\<close>: a missing \<open>config['api']['url']\<close> or \<open>config['api']['key']\<close>
  raises \<open>KeyError\<close>, which the outer handler turns into \<open>False\<close> before any request.
\<close>

definition test_api_endpoints :: "config \<Rightarrow> probe_env \<Rightarrow> redirects \<Rightarrow> bool \<times> probe_state" where
  "test_api_endpoints cfg env hops =
     (case api_url cfg of
        None \<Rightarrow> (False, probe_start)
      | Some api_base_url \<Rightarrow>
          (case api_key cfg of
             None \<Rightarrow> (False, probe_start)
           | Some key \<Rightarrow>
               let st = probe_all env hops api_base_url endpoints probe_start;
                   errors = filter (\<lambda>r. status r \<noteq> ''AVAILABLE'') (results st)
               in (length errors = 0, st)))"

section \<open>Observing a trace\<close>

text \<open>The tables for which a request was sent, in the order of the requests.\<close>

fun posted :: "event list \<Rightarrow> string list" where
  "posted [] = []"
| "posted (Post url body # evs) = table body # posted evs"
| "posted (ev # evs) = posted evs"

section \<open>Example inputs\<close>

definition example_config :: config where
  "example_config = \<lparr>api_url = Some ''http://host'', api_key = Some ''secret'', target_database = None\<rparr>"

definition example_row :: row where
  "example_row = [(''code'', PStr ''P1''), (''quantity'', PInt 3)]"

definition example_payload :: payload where
  "example_payload = \<lparr>database = ''OMEGA'', table = ''acc_product'', data = [example_row]\<rparr>"

definition example_data :: "string \<rightharpoonup> row list" where
  "example_data = [''acc_product'' \<mapsto> [example_row], ''acc_invmast'' \<mapsto> [example_row]]"

definition all_ok :: probe_env where
  "all_ok = (\<lambda>i. Responded 200 ''ok'')"

definition no_redirects :: redirects where
  "no_redirects = (\<lambda>i. [])"

definition login_redirect :: redirects where
  "login_redirect = (\<lambda>i. if i = 0 then [(302, ''http://host/login'')] else [])"

definition accepted :: response where
  "accepted = \<lparr>status_code = 200, body_text = ''accepted'',
     json_body = Some (JObj [(''success'', JBool True)])\<rparr>"

definition rejected :: response where
  "rejected = \<lparr>status_code = 200, body_text = ''rejected'',
     json_body = Some (JObj [(''success'', JBool False), (''error'', JStr ''Invalid data''),
       (''validation_errors'', JArr [JStr ''row 1'', JStr ''row 2'', JStr ''row 3''])])\<rparr>"

definition html_page :: response where
  "html_page = \<lparr>status_code = 200, body_text = ''<html>'', json_body = None\<rparr>"

definition server_error :: response where
  "server_error = \<lparr>status_code = 500, body_text = ''Internal Server Error'', json_body = None\<rparr>"

section \<open>Properties of chunking\<close>

lemma py_slice_chunk:
  "0 \<le> i \<Longrightarrow> 0 < c \<Longrightarrow> py_slice xs i (i + c) = take (nat c) (drop (nat i) xs)"
  by (auto simp: py_slice_def slice_bound_def Let_def min_def nat_add_distrib)

lemma concat_chunks_from:
  "0 < c \<Longrightarrow> 0 \<le> i \<Longrightarrow>
   concat (map (\<lambda>k. take (nat c) (drop (nat k) xs)) (range_up i (int (length xs)) c)) = drop (nat i) xs"
proof (induction i "int (length xs)" c rule: range_up.induct)
  case (1 i step)
  show ?case
  proof (cases "i < int (length xs)")
    case True
    have "drop (nat (i + step)) xs = drop (nat step) (drop (nat i) xs)"
      using 1(2,3) by (simp add: nat_add_distrib add.commute)
    with 1 True show ?thesis
      by (subst range_up.simps) (simp del: drop_drop)
  next
    case False
    then show ?thesis using 1 by (subst range_up.simps) simp
  qed
qed

lemma length_range_up:
  "0 < c \<Longrightarrow> i \<le> n \<Longrightarrow> int (length (range_up i n c)) = (n - i + c - 1) div c"
proof (induction i n c rule: range_up.induct)
  case (1 i stop step)
  show ?case
  proof (cases "i < stop")
    case True
    show ?thesis
    proof (cases "i + step \<le> stop")
      case le: True
      have "(stop - i + step - 1) div step = (stop - (i + step) + step - 1) div step + 1"
        using 1(2) True by (smt (verit, ccfv_threshold) div_pos_geq)
      with 1 True le show ?thesis by (subst range_up.simps) simp
    next
      case gt: False
      have a: "range_up (i + step) stop step = []" using gt by (subst range_up.simps) simp
      have "(stop - i + step - 1) div step = 1"
        using gt True 1(2) by (simp add: div_pos_geq pos_imp_zdiv_pos_iff)
      with a True 1(2) show ?thesis by (subst range_up.simps) simp
    qed
  next
    case False
    with 1 have "i = stop" by simp
    then show ?thesis using 1(2) by (subst range_up.simps) (simp add: div_pos_pos_trivial)
  qed
qed

lemma nth_range_up:
  "j < length (range_up i n c) \<Longrightarrow> range_up i n c ! j = i + int j * c"
proof (induction i n c arbitrary: j rule: range_up.induct)
  case (1 i stop step)
  show ?case
  proof (cases "0 < step \<and> i < stop")
    case True
    then have eq: "range_up i stop step = i # range_up (i + step) stop step"
      by (subst range_up.simps) simp
    show ?thesis
    proof (cases j)
      case 0
      then show ?thesis by (simp add: eq)
    next
      case (Suc k)
      with 1(2) eq have "k < length (range_up (i + step) stop step)" by simp
      from 1(1)[OF True this] Suc show ?thesis by (simp add: eq algebra_simps)
    qed
  next
    case False
    then have "range_up i stop step = []" by (subst range_up.simps) auto
    with 1(2) show ?thesis by simp
  qed
qed

lemma range_up_nonneg: "0 < c \<Longrightarrow> k \<in> set (range_up 0 n c) \<Longrightarrow> 0 \<le> k"
  by (auto simp: in_set_conv_nth nth_range_up)

lemma chunk_data_pos:
  assumes "0 < c"
  shows "chunk_data xs c =
    Inr (map (\<lambda>k. take (nat c) (drop (nat k) xs)) (range_up 0 (int (length xs)) c))"
  using assms range_up_nonneg[OF assms]
  by (auto simp: chunk_data_def py_range_def py_slice_chunk)

lemma ceil_div_cases:
  assumes "0 < (c::int)"
  shows "(n + c - 1) div c = (if n mod c = 0 then n div c else n div c + 1)"
proof (cases "n mod c = 0")
  case True
  have "n = (n div c) * c" using True by (metis add.right_neutral div_mult_mod_eq)
  then have "n + c - 1 = (c - 1) + (n div c) * c" by simp
  then have "(n + c - 1) div c = (n div c) + (c - 1) div c"
    using assms by (metis div_mult_self1 less_irrefl)
  with True assms show ?thesis by (simp add: div_pos_pos_trivial)
next
  case False
  then have r: "1 \<le> n mod c" "n mod c < c"
    using assms by (auto simp: pos_mod_bound) (smt (verit) pos_mod_sign)
  have "n + c - 1 = (n mod c - 1) + (n div c + 1) * c" by (simp add: algebra_simps)
  then have "(n + c - 1) div c = (n div c + 1) + (n mod c - 1) div c"
    using assms by (metis div_mult_self1 less_irrefl)
  with False r show ?thesis by (simp add: div_pos_pos_trivial)
qed

lemma ceil_div_int: "0 < c \<Longrightarrow> \<lceil>real_of_int n / real_of_int c\<rceil> = (n + c - 1) div c"
  by (simp add: ceil_div_cases ceiling_divide_eq_div zdiv_zminus1_eq_if)

lemma full_chunk_bound:
  assumes "0 < (c::int)" "int (Suc j) < (n + c - 1) div c"
  shows "int j * c + c \<le> n"
proof -
  have "int (Suc j) < n div c + 1" using assms by (simp add: ceil_div_cases split: if_splits)
  then have "int j + 1 \<le> n div c" by simp
  then have "(int j + 1) * c \<le> (n div c) * c" using assms(1) by (simp add: mult_right_mono)
  also have "\<dots> \<le> n" using assms(1) pos_mod_sign[of c n] div_mult_mod_eq[of n c] by linarith
  finally show ?thesis by (simp add: algebra_simps)
qed

lemma last_chunk_size:
  assumes "0 < (c::int)"
  shows "n - ((n + c - 1) div c - 1) * c = (if n mod c = 0 then c else n mod c)"
proof -
  have "n - (n div c) * c = n mod c" using div_mult_mod_eq[of n c] by linarith
  moreover have "n mod c = 0 \<Longrightarrow> n - (n div c - 1) * c = c"
    using div_mult_mod_eq[of n c] by (simp add: algebra_simps)
  ultimately show ?thesis using assms
    by (simp add: ceil_div_cases)
qed

text \<open>
  Claim C1.  For a positive chunk size \<open>c\<close> (the code passes 1000) and a row sequence of
  length \<open>N\<close>, \<open>chunk_data\<close> yields exactly \<open>\<lceil>N / c\<rceil>\<close> chunks; every chunk but the
  last has exactly \<open>c\<close> rows; the last chunk has \<open>N mod c\<close> rows, or \<open>c\<close> when \<open>N\<close> is
  a multiple of \<open>c\<close>; and the chunks concatenated in order are the original sequence,
  so no row is dropped or duplicated.
\<close>

theorem chunk_data_partition:
  assumes "0 < c"
  shows "\<exists>chunks. chunk_data xs c = Inr chunks
     \<and> int (length chunks) = \<lceil>real (length xs) / real_of_int c\<rceil>
     \<and> (\<forall>j. Suc j < length chunks \<longrightarrow> int (length (chunks ! j)) = c)
     \<and> (chunks \<noteq> [] \<longrightarrow>
          int (length (last chunks)) =
            (if int (length xs) mod c = 0 then c else int (length xs) mod c))
     \<and> concat chunks = xs"
proof -
  define n where "n = int (length xs)"
  define starts where "starts = range_up 0 n c"
  define chunks where "chunks = map (\<lambda>k. take (nat c) (drop (nat k) xs)) starts"
  have cd: "chunk_data xs c = Inr chunks"
    using assms by (simp add: chunk_data_pos chunks_def starts_def n_def)
  have len: "int (length chunks) = (n + c - 1) div c"
    using length_range_up[of c 0 n] assms by (simp add: chunks_def starts_def n_def)
  have ceil: "int (length chunks) = \<lceil>real (length xs) / real_of_int c\<rceil>"
    using ceil_div_int[OF assms, of n] len by (simp add: n_def)
  have nth: "length (chunks ! j) = min (nat c) (length xs - nat (int j * c))"
    if "j < length chunks" for j
    using that by (simp add: chunks_def starts_def nth_range_up)
  have full: "int (length (chunks ! j)) = c" if "Suc j < length chunks" for j
  proof -
    have "int (Suc j) < (n + c - 1) div c" using that len by linarith
    from full_chunk_bound[OF assms this] have "int j * c + c \<le> n" .
    moreover have "0 \<le> int j * c" using assms by simp
    ultimately have "nat c \<le> length xs - nat (int j * c)"
      using assms unfolding n_def by linarith
    with nth[of j] that assms show ?thesis by simp
  qed
  have lst: "int (length (last chunks)) = (if n mod c = 0 then c else n mod c)"
    if ne: "chunks \<noteq> []"
  proof -
    have pos: "0 < length chunks" using ne by simp
    have npos: "0 < n"
    proof (rule ccontr)
      assume "\<not> 0 < n"
      then have "n = 0" by (simp add: n_def)
      then have "starts = []" unfolding starts_def by (subst range_up.simps) simp
      with ne show False by (simp add: chunks_def)
    qed
    have l: "last chunks = chunks ! (length chunks - 1)" using ne by (simp add: last_conv_nth)
    have "int (length chunks - 1) = (n + c - 1) div c - 1" using pos len by linarith
    then have off: "int (length chunks - 1) * c = ((n + c - 1) div c - 1) * c" by simp
    have rem: "n - ((n + c - 1) div c - 1) * c = (if n mod c = 0 then c else n mod c)"
      by (rule last_chunk_size[OF assms])
    have bnd: "(if n mod c = 0 then c else n mod c) \<le> c"
      using pos_mod_bound[OF assms, of n] by (simp add: less_imp_le)
    have "1 \<le> (n + c - 1) div c" using pos len by linarith
    then have ge0: "0 \<le> ((n + c - 1) div c - 1) * c"
      using assms by (simp add: zero_le_mult_iff)
    have "length (chunks ! (length chunks - 1)) =
          min (nat c) (length xs - nat (int (length chunks - 1) * c))"
      by (rule nth) (use pos in simp)
    then have "int (length (last chunks)) =
          int (min (nat c) (length xs - nat (((n + c - 1) div c - 1) * c)))"
      unfolding l off by (simp only:)
    also have "\<dots> = (if n mod c = 0 then c else n mod c)"
    proof -
      define m where "m = ((n + c - 1) div c - 1) * c"
      define r where "r = (if n mod c = 0 then c else n mod c)"
      have r1: "n - m = r" using rem by (simp add: m_def r_def)
      have m0: "0 \<le> m" using ge0 by (simp add: m_def)
      have "length xs - nat m = nat r"
        using r1 m0 unfolding n_def by linarith
      moreover have "r \<le> c" using bnd by (simp add: r_def)
      moreover have "0 \<le> r" using pos_mod_sign[OF assms, of n] assms by (simp add: r_def)
      ultimately have "int (min (nat c) (length xs - nat m)) = r" by simp
      then show ?thesis by (simp only: m_def r_def)
    qed
    finally show ?thesis .
  qed
  have cat: "concat chunks = xs"
    using concat_chunks_from[OF assms, of 0 xs] by (simp add: chunks_def starts_def n_def)
  from cd ceil full lst cat show ?thesis by (auto simp: n_def)
qed

theorem chunk_data_partition_witness:
  "(0::int) < 2 \<and> chunk_data [1, 2, 3, 4, 5 :: nat] 2 = Inr [[1, 2], [3, 4], [5]] \<and>
   (\<exists>chunks. chunk_data [1, 2, 3, 4, 5 :: nat] 2 = Inr chunks
      \<and> int (length chunks) = \<lceil>real (length [1, 2, 3, 4, 5 :: nat]) / real_of_int 2\<rceil>
      \<and> (\<forall>j. Suc j < length chunks \<longrightarrow> int (length (chunks ! j)) = 2)
      \<and> (chunks \<noteq> [] \<longrightarrow>
           int (length (last chunks)) =
             (if int (length [1, 2, 3, 4, 5 :: nat]) mod 2 = 0 then 2
              else int (length [1, 2, 3, 4, 5 :: nat]) mod 2))
      \<and> concat chunks = [1, 2, 3, 4, 5])"
proof -
  have pos: "(0::int) < 2" by simp
  have val: "chunk_data [1, 2, 3, 4, 5 :: nat] 2 = Inr [[1, 2], [3, 4], [5]]"
    by code_simp
  from pos val chunk_data_partition [OF pos, of "[1, 2, 3, 4, 5 :: nat]"]
  show ?thesis by blast
qed

section \<open>Properties of the value normalizer\<close>

lemma floor_log2_example: "floor_log2 1250 100 = 3"
  by code_simp

lemma float_of_decimal_example:
  "float_of_decimal (Decimal False 1250 (- 2)) = Finite False (25 * 2 ^ 48) (- 49)"
  by (simp add: float_of_decimal_def float_of_ratio_def floor_log2_example scale2_def
      round_half_even_def Let_def)

lemma float_value_example: "float_value (Finite False (25 * 2 ^ 48) (- 49)) = Some (25 / 2)"
  by (simp add: float_value_def)

lemma date_isoformat_example:
  "date_isoformat \<lparr>year = 2024, month = 3, day = 15\<rparr> = ''2024-03-15''"
  by code_simp

lemma length_digits: "n < 10 ^ Suc k \<Longrightarrow> length (digits n) \<le> Suc k"
proof (induction k arbitrary: n)
  case 0
  then show ?case by (subst digits.simps) simp
next
  case (Suc k)
  show ?case
  proof (cases "n < 10")
    case True
    then show ?thesis by (subst digits.simps) simp
  next
    case False
    have "n div 10 < 10 ^ Suc k" using Suc.prems by (simp add: less_mult_imp_div_less)
    from Suc.IH[OF this] False show ?thesis by (subst digits.simps) simp
  qed
qed

lemma length_zero_pad: "n < 10 ^ w \<Longrightarrow> 0 < w \<Longrightarrow> length (zero_pad w n) = w"
  using length_digits[of n "w - 1"] by (simp add: zero_pad_def)

lemma date_isoformat_shape:
  assumes "year d < 10000" "month d < 100" "day d < 100"
  shows "length (date_isoformat d) = 10 \<and> date_isoformat d ! 4 = CHR ''-''
         \<and> date_isoformat d ! 7 = CHR ''-''"
proof -
  have y: "length (zero_pad 4 (year d)) = 4" using assms(1) by (simp add: length_zero_pad)
  have m: "length (zero_pad 2 (month d)) = 2" using assms(2) by (simp add: length_zero_pad)
  have dd: "length (zero_pad 2 (day d)) = 2" using assms(3) by (simp add: length_zero_pad)
  show ?thesis using y m dd by (simp add: date_isoformat_def nth_append)
qed

lemma default_enc_native: "default_enc v = Inr w \<Longrightarrow> json_native w"
  by (auto simp: default_enc_def split: pyval.splits)

lemma normalize_value_native: "normalize_value v = Inr w \<Longrightarrow> json_native w"
  by (auto simp: normalize_value_def default_enc_native split: if_splits)

lemma normalize_value_idem: "normalize_value v = Inr w \<Longrightarrow> normalize_value w = Inr w"
  using normalize_value_native[of v w] by (simp add: normalize_value_def)

subsection \<open>The float of a decimal is the nearest binary64 value\<close>

lemma scale2_ratio:
  assumes "0 < b" "scale2 a b e = (a', b')"
  shows "0 < b'" and "(of_nat a' / of_nat b' :: rat) = (of_nat a / of_nat b) * 2 powi (- e)"
  using assms
  by (auto simp: scale2_def power_int_def field_simps split: if_splits)

lemma bit_length_one: "bit_length (Suc 0) = 1"
  by (subst bit_length.simps) (simp add: bit_length.simps[of 0])

lemma bit_length_bounds:
  "0 < n \<Longrightarrow> 2 ^ (bit_length n - 1) \<le> n \<and> n < 2 ^ bit_length n"
proof (induction n rule: bit_length.induct)
  case (1 n)
  show ?case
  proof (cases "n div 2 = 0")
    case True
    with 1(2) have "n = 1" by (simp add: div_eq_0_iff) 
    then show ?thesis by (simp add: bit_length_one)
  next
    case False
    then have pos: "0 < n div 2" by simp
    from 1(1)[OF _ pos] 1(2)
    have ih: "2 ^ (bit_length (n div 2) - 1) \<le> n div 2" "n div 2 < 2 ^ bit_length (n div 2)"
      by auto
    have bl: "bit_length n = Suc (bit_length (n div 2))"
      using 1(2) by (subst bit_length.simps) simp
    have blpos: "0 < bit_length (n div 2)"
      using pos by (subst bit_length.simps) simp
    have "2 ^ (bit_length n - 1) = 2 * 2 ^ (bit_length (n div 2) - 1)"
      using blpos bl by (cases "bit_length (n div 2)") auto
    also have "\<dots> \<le> 2 * (n div 2)" using ih(1) by simp
    also have "\<dots> \<le> n" by simp
    finally have lo: "2 ^ (bit_length n - 1) \<le> n" .
    have "n < 2 * (n div 2) + 2" by presburger
    also have "\<dots> \<le> 2 * 2 ^ bit_length (n div 2)" using ih(2) by simp
    finally have hi: "n < 2 ^ bit_length n" by (simp add: bl)
    from lo hi show ?thesis by simp
  qed
qed

lemma round_half_even_nearest:
  assumes "0 < b"
  shows "\<bar>of_nat (round_half_even a b) - (of_nat a / of_nat b :: rat)\<bar>
           \<le> \<bar>of_nat n - of_nat a / of_nat b\<bar>"
    and "n \<noteq> round_half_even a b \<Longrightarrow>
         \<bar>of_nat (round_half_even a b) - (of_nat a / of_nat b :: rat)\<bar>
           = \<bar>of_nat n - of_nat a / of_nat b\<bar> \<Longrightarrow> even (round_half_even a b)"
    and "2 * \<bar>of_nat (round_half_even a b) - (of_nat a / of_nat b :: rat)\<bar> \<le> 1"
proof -
  define q where "q = a div b"
  define r where "r = a mod b"
  define f :: rat where "f = of_nat r / of_nat b"
  have a: "a = q * b + r" by (simp add: q_def r_def)
  have rb: "r < b" using assms by (simp add: r_def)
  have t: "(of_nat a / of_nat b :: rat) = of_nat q + f"
    using assms by (simp add: a f_def field_simps)
  have f0: "0 \<le> f" by (simp add: f_def)
  have f1: "f < 1" using rb assms by (simp add: f_def)
  have less: "2 * r < b \<longleftrightarrow> 2 * f < 1"
    using assms by (simp add: f_def field_simps) (metis of_nat_less_iff of_nat_mult of_nat_numeral mult.commute)
  have more: "b < 2 * r \<longleftrightarrow> 1 < 2 * f"
    using assms by (simp add: f_def field_simps) (metis of_nat_less_iff of_nat_mult of_nat_numeral mult.commute)
  have n: "(of_nat n :: rat) \<le> of_nat q \<or> (of_nat n :: rat) \<ge> of_nat q + 1"
    by (metis of_nat_le_iff of_nat_Suc not_less_eq_eq add.commute nat_le_linear)
  have rhe: "round_half_even a b =
      (if 2 * r < b then q else if b < 2 * r then q + 1 else if even q then q else q + 1)"
    by (simp add: round_half_even_def Let_def q_def r_def)
  have m: "(2 * f < 1 \<and> round_half_even a b = q) \<or> (1 < 2 * f \<and> round_half_even a b = q + 1)
      \<or> (2 * f = 1 \<and> even (round_half_even a b) \<and> (round_half_even a b = q \<or> round_half_even a b = q + 1))"
  proof -
    consider (lo) "2 * f < 1" | (hi) "1 < 2 * f" | (tie) "2 * f = 1" by linarith
    then show ?thesis
    proof cases
      case lo
      then have "2 * r < b" using less by simp
      then have "round_half_even a b = q" by (simp only: rhe if_True)
      with lo show ?thesis by simp
    next
      case hi
      then have "b < 2 * r" "\<not> 2 * r < b" using more by simp_all
      then have "round_half_even a b = q + 1" by (simp only: rhe if_True if_False)
      with hi show ?thesis by simp
    next
      case tie
      then have "\<not> b < 2 * r" "\<not> 2 * r < b" using less more by simp_all
      then have "round_half_even a b = (if even q then q else q + 1)"
        by (simp only: rhe if_False)
      then have "even (round_half_even a b) \<and> (round_half_even a b = q \<or> round_half_even a b = q + 1)"
        by (cases "even q") simp_all
      with tie show ?thesis by simp
    qed
  qed
  show "\<bar>of_nat (round_half_even a b) - (of_nat a / of_nat b :: rat)\<bar>
           \<le> \<bar>of_nat n - of_nat a / of_nat b\<bar>"
    using m n f0 f1 unfolding t by auto
  show "2 * \<bar>of_nat (round_half_even a b) - (of_nat a / of_nat b :: rat)\<bar> \<le> 1"
    using m f0 f1 unfolding t by auto
  show "even (round_half_even a b)"
    if "n \<noteq> round_half_even a b"
      "\<bar>of_nat (round_half_even a b) - (of_nat a / of_nat b :: rat)\<bar>
           = \<bar>of_nat n - of_nat a / of_nat b\<bar>"
  proof (rule ccontr)
    assume odd: "odd (round_half_even a b)"
    with m have c: "(2 * f < 1 \<and> round_half_even a b = q) \<or> (1 < 2 * f \<and> round_half_even a b = q + 1)"
      by auto
    from that(1) have ne: "(of_nat n :: rat) \<noteq> of_nat (round_half_even a b)" by simp
    from c show False
    proof
      assume "2 * f < 1 \<and> round_half_even a b = q"
      then show False using that(2) ne n f0 f1 unfolding t by auto
    next
      assume "1 < 2 * f \<and> round_half_even a b = q + 1"
      then show False using that(2) ne n f0 f1 unfolding t by auto
    qed
  qed
qed


lemma floor_log2_bounds:
  assumes "0 < a" "0 < b"
  shows "2 powi (floor_log2 a b) \<le> (of_nat a / of_nat b :: rat)"
    and "(of_nat a / of_nat b :: rat) < 2 powi (floor_log2 a b + 1)"
proof -
  define x :: rat where "x = of_nat a / of_nat b"
  define la where "la = bit_length a"
  define lb where "lb = bit_length b"
  define k0 where "k0 = int la - int lb"
  have xpos: "0 < x" using assms by (simp add: x_def)
  have bpos: "(0::rat) < of_nat b" using assms by simp
  have la1: "1 \<le> la" using assms(1) unfolding la_def by (subst bit_length.simps) simp
  have lb1: "1 \<le> lb" using assms(2) unfolding lb_def by (subst bit_length.simps) simp
  from bit_length_bounds[OF assms(1)]
  have a_lo: "(2::rat) ^ (la - 1) \<le> of_nat a" and a_hi: "(of_nat a :: rat) < 2 ^ la"
    unfolding la_def by (metis of_nat_le_iff of_nat_numeral of_nat_power, metis of_nat_less_iff of_nat_numeral of_nat_power)
  from bit_length_bounds[OF assms(2)]
  have b_lo: "(2::rat) ^ (lb - 1) \<le> of_nat b" and b_hi: "(of_nat b :: rat) < 2 ^ lb"
    unfolding lb_def by (metis of_nat_le_iff of_nat_numeral of_nat_power, metis of_nat_less_iff of_nat_numeral of_nat_power)
  have p_hi: "(2::rat) powi (k0 + 1) = 2 ^ la / 2 ^ (lb - 1)"
  proof -
    have "k0 + 1 = int la - int (lb - 1)" using lb1 by (simp add: k0_def)
    then show ?thesis by (simp add: power_int_diff)
  qed
  have p_lo: "(2::rat) powi (k0 - 1) = 2 ^ (la - 1) / 2 ^ lb"
  proof -
    have "k0 - 1 = int (la - 1) - int lb" using la1 by (simp add: k0_def)
    then show ?thesis by (simp add: power_int_diff)
  qed
  have hi: "x < 2 powi (k0 + 1)"
  proof -
    have "x < 2 ^ la / of_nat b" unfolding x_def using a_hi bpos by (simp add: divide_strict_right_mono)
    also have "\<dots> \<le> 2 ^ la / 2 ^ (lb - 1)" using b_lo by (simp add: frac_le)
    finally show ?thesis by (simp add: p_hi)
  qed
  have lo: "2 powi (k0 - 1) < x"
  proof -
    have "(2::rat) ^ (la - 1) / 2 ^ lb < 2 ^ (la - 1) / of_nat b"
      using b_hi bpos by (simp add: frac_less2)
    also have "\<dots> \<le> x" unfolding x_def using a_lo bpos by (simp add: divide_right_mono)
    finally show ?thesis by (simp add: p_lo)
  qed
  obtain a' b' where sc: "scale2 a b k0 = (a', b')" by (cases "scale2 a b k0")
  note r = scale2_ratio[OF assms(2) sc]
  have cmp: "b' \<le> a' \<longleftrightarrow> 2 powi k0 \<le> x"
  proof -
    have "b' \<le> a' \<longleftrightarrow> (1::rat) \<le> of_nat a' / of_nat b'"
      using r(1) by (simp add: le_divide_eq)
    also have "\<dots> \<longleftrightarrow> 1 \<le> x * 2 powi (- k0)" by (simp only: r(2) x_def)
    also have "\<dots> \<longleftrightarrow> 2 powi k0 \<le> x"
      by (simp add: power_int_minus field_simps)
    finally show ?thesis .
  qed
  have fl: "floor_log2 a b = (if b' \<le> a' then k0 else k0 - 1)"
    using sc by (simp add: floor_log2_def Let_def k0_def la_def lb_def)
  show "2 powi (floor_log2 a b) \<le> (of_nat a / of_nat b :: rat)"
    using cmp lo unfolding fl x_def[symmetric] by auto
  show "(of_nat a / of_nat b :: rat) < 2 powi (floor_log2 a b + 1)"
    using cmp hi unfolding fl x_def[symmetric] by auto
qed


lemma of_nat_pow2_le: "(of_nat m :: rat) \<le> 2 ^ n \<longleftrightarrow> m \<le> 2 ^ n"
  by (metis of_nat_le_iff of_nat_numeral of_nat_power)

lemma of_nat_pow2_ge: "(2 ^ n :: rat) \<le> of_nat m \<longleftrightarrow> 2 ^ n \<le> m"
  by (metis of_nat_le_iff of_nat_numeral of_nat_power)

lemma powi_shift: "(2::rat) powi (j + int n) = 2 powi j * 2 ^ n"
  by (simp add: power_int_add)

lemma float_of_ratio_correct:
  fixes x :: rat
  assumes "0 < b" and x: "x = of_nat a / of_nat b"
  shows "case float_of_ratio s a b of
      Finite s' m e \<Rightarrow>
        s' = s \<and> m < 2 ^ 53 \<and> - 1074 \<le> e \<and> e \<le> 971 \<and> (2 ^ 52 \<le> m \<or> e = - 1074)
        \<and> (\<forall>m2 e2. m2 < 2 ^ 53 \<and> - 1074 \<le> e2 \<longrightarrow>
              \<bar>of_nat m * 2 powi e - x\<bar> \<le> \<bar>of_nat m2 * 2 powi e2 - x\<bar>
            \<and> (of_nat m2 * 2 powi e2 \<noteq> (of_nat m * 2 powi e :: rat)
               \<and> \<bar>of_nat m * 2 powi e - x\<bar> = \<bar>of_nat m2 * 2 powi e2 - x\<bar> \<longrightarrow> even m))
    | Infinity s' \<Rightarrow> s' = s \<and> (2 ^ 53 - 1 / 2) * 2 ^ 971 \<le> x
    | NaN \<Rightarrow> False"
proof (cases "a = 0")
  case True
  then show ?thesis by (auto simp: float_of_ratio_def x)
next
  case False
  then have apos: "0 < a" by simp
  define k where "k = floor_log2 a b"
  define e where "e = max (k - 52) (- 1074)"
  obtain a' b' where sc: "scale2 a b e = (a', b')" by (cases "scale2 a b e")
  define t :: rat where "t = of_nat a' / of_nat b'"
  define m where "m = round_half_even a' b'"
  define e' where "e' = (if m = 2 ^ 53 then e + 1 else e)"
  define m' where "m' = (if m = 2 ^ 53 then 2 ^ 52 else m)"
  have res: "float_of_ratio s a b = (if 971 < e' then Infinity s else Finite s m' e')"
    using False sc
    by (auto simp: float_of_ratio_def Let_def k_def e_def m_def e'_def m'_def max_def)
  note r = scale2_ratio[OF assms(1) sc]
  have pe: "(0::rat) < 2 powi e" by simp
  have tx: "t = x * 2 powi (- e)" by (simp add: t_def r(2) x)
  have xt: "x = t * 2 powi e" by (simp add: tx power_int_minus)
  note kb = floor_log2_bounds[OF apos assms(1), folded x k_def]
  have e_ge: "k - 52 \<le> e" "- 1074 \<le> e" by (simp_all add: e_def)
  have e_cases: "e = k - 52 \<or> e = - 1074" by (auto simp: e_def max_def)
  have near: "\<bar>of_nat m - t\<bar> \<le> \<bar>of_nat n - t\<bar>" for n
    unfolding m_def t_def by (rule round_half_even_nearest(1)[OF r(1)])
  have tie: "even m" if "n \<noteq> m" "\<bar>of_nat m - t\<bar> = \<bar>of_nat n - t\<bar>" for n
    using round_half_even_nearest(2)[OF r(1), of n a'] that unfolding m_def t_def by blast
  have half: "2 * \<bar>of_nat m - t\<bar> \<le> 1"
    unfolding m_def t_def by (rule round_half_even_nearest(3)[OF r(1)])
  have scale: "\<bar>u * 2 powi e - x\<bar> = \<bar>u - t\<bar> * 2 powi e" for u :: rat
  proof -
    have "u * 2 powi e - x = (u - t) * 2 powi e" by (simp add: xt algebra_simps)
    then show ?thesis using pe by (simp add: abs_mult)
  qed
  have t_hi: "t < 2 ^ 53"
  proof -
    have "x < 2 powi (k + 1)" by (rule kb(2))
    also have "\<dots> \<le> 2 powi (e + 53)" using e_ge(1) by (intro power_int_increasing) auto
    also have "\<dots> = 2 powi e * 2 ^ 53" using powi_shift[of e 53] by simp
    finally have "t * 2 powi e < 2 ^ 53 * 2 powi e" by (simp add: xt mult.commute)
    then show ?thesis using pe by simp
  qed
  have tpos: "0 \<le> t" by (simp add: t_def)
  have m_le: "m \<le> 2 ^ 53"
  proof -
    have "\<bar>of_nat m - t\<bar> \<le> \<bar>of_nat (2 ^ 53) - t\<bar>" by (rule near)
    then have "(of_nat m :: rat) \<le> 2 ^ 53" using t_hi by simp
    then show ?thesis by (simp only: of_nat_pow2_le)
  qed
  have normal: "2 ^ 52 \<le> t \<and> 2 ^ 52 \<le> m" if "e = k - 52"
  proof -
    have "2 powi e * 2 ^ 52 = (2::rat) powi k"
      using powi_shift[of e 52] that by simp
    also have "\<dots> \<le> x" by (rule kb(1))
    finally have "2 ^ 52 * 2 powi e \<le> t * 2 powi e" by (simp add: xt mult.commute)
    then have t52: "2 ^ 52 \<le> t" using pe by simp
    have "\<bar>of_nat m - t\<bar> \<le> \<bar>of_nat (2 ^ 52) - t\<bar>" by (rule near)
    then have "(2 ^ 52 :: rat) \<le> of_nat m" using t52 by simp
    then have "2 ^ 52 \<le> m" by (simp only: of_nat_pow2_ge)
    with t52 show ?thesis by simp
  qed
  have val: "(of_nat m' * 2 powi e' :: rat) = of_nat m * 2 powi e"
    using powi_shift[of e 1] by (simp add: m'_def e'_def)
  have m'_lt: "m' < 2 ^ 53" using m_le by (auto simp: m'_def)
  have e'_ge: "- 1074 \<le> e'" using e_ge(2) by (simp add: e'_def)
  have canon: "2 ^ 52 \<le> m' \<or> e' = - 1074"
    using e_cases normal by (auto simp: m'_def e'_def)
  have even_m': "even m'" if "even m" using that by (simp add: m'_def)
  have best: "\<bar>of_nat m * 2 powi e - x\<bar> \<le> \<bar>of_nat m2 * 2 powi e2 - x\<bar>
            \<and> (of_nat m2 * 2 powi e2 \<noteq> (of_nat m * 2 powi e :: rat)
               \<and> \<bar>of_nat m * 2 powi e - x\<bar> = \<bar>of_nat m2 * 2 powi e2 - x\<bar> \<longrightarrow> even m')"
    if m2: "m2 < 2 ^ 53" and e2: "- 1074 \<le> e2" for m2 :: nat and e2 :: int
  proof (cases "e \<le> e2")
    case True
    define n where "n = m2 * 2 ^ nat (e2 - e)"
    have n: "(of_nat n :: rat) * 2 powi e = of_nat m2 * 2 powi e2"
    proof -
      have "(2::rat) powi e2 = 2 powi (e2 - e) * 2 powi e" by (simp add: power_int_add[symmetric])
      also have "(2::rat) powi (e2 - e) = 2 ^ nat (e2 - e)" using True by (simp add: power_int_def)
      finally show ?thesis by (simp add: n_def)
    qed
    have le: "\<bar>of_nat m * 2 powi e - x\<bar> \<le> \<bar>of_nat m2 * 2 powi e2 - x\<bar>"
      using near[of n] pe unfolding n[symmetric] scale by (simp add: mult_right_mono)
    have "even m" if ne: "of_nat m2 * 2 powi e2 \<noteq> (of_nat m * 2 powi e :: rat)"
      and eq: "\<bar>of_nat m * 2 powi e - x\<bar> = \<bar>of_nat m2 * 2 powi e2 - x\<bar>"
    proof -
      from ne have "n \<noteq> m" unfolding n[symmetric] by auto
      moreover from eq have "\<bar>of_nat m - t\<bar> = \<bar>of_nat n - t\<bar>"
        unfolding n[symmetric] scale using pe by simp
      ultimately show ?thesis by (rule tie)
    qed
    with le even_m' show ?thesis by blast
  next
    case False
    then have lt: "e2 \<le> e - 1" by simp
    with e2 e_cases have ek: "e = k - 52" by auto
    have "(of_nat m2 :: rat) < 2 ^ 53" using m2 by (metis of_nat_less_iff of_nat_numeral of_nat_power)
    then have "(of_nat m2 :: rat) * 2 powi e2 < 2 ^ 53 * 2 powi e2" by simp
    also have "\<dots> \<le> 2 ^ 53 * 2 powi (e - 1)"
      using lt by (intro mult_left_mono power_int_increasing) auto
    also have "\<dots> = 2 ^ 52 * 2 powi e" using powi_shift[of "e - 1" 1] by simp
    finally have y: "(of_nat m2 :: rat) * 2 powi e2 < 2 ^ 52 * 2 powi e" .
    have t52: "2 ^ 52 \<le> t" using normal[OF ek] by simp
    then have lo: "(2 ^ 52 :: rat) * 2 powi e \<le> x" using pe by (simp add: xt)
    have "\<bar>of_nat m * 2 powi e - x\<bar> \<le> \<bar>of_nat (2 ^ 52) * 2 powi e - x\<bar>"
      using near[of "2 ^ 52"] pe unfolding scale by (simp add: mult_right_mono)
    also have "\<dots> = x - 2 ^ 52 * 2 powi e" using lo by simp
    also have "\<dots> < x - of_nat m2 * 2 powi e2" using y by simp
    also have "\<dots> = \<bar>of_nat m2 * 2 powi e2 - x\<bar>" using y lo by simp
    finally show ?thesis by simp
  qed
  show ?thesis
  proof (cases "971 < e'")
    case True
    have "(2 ^ 53 - 1 / 2) * 2 ^ 971 \<le> x"
    proof (cases "972 \<le> e")
      case True
      with e_cases have ek: "e = k - 52" by auto
      have "(2 ^ 53 - 1 / 2) * 2 ^ 971 \<le> (2::rat) ^ 53 * 2 ^ 971" by simp
      also have "\<dots> = 2 powi 1024" by (simp add: power_int_def)
      also have "\<dots> \<le> 2 powi k" using True ek by (intro power_int_increasing) auto
      also have "\<dots> \<le> x" by (rule kb(1))
      finally show ?thesis .
    next
      case False
      with \<open>971 < e'\<close> have e971: "e = 971" and m53: "m = 2 ^ 53"
        by (auto simp: e'_def split: if_splits)
      have "of_nat m - t \<le> 1 / 2" using half by (simp add: abs_if split: if_splits)
      then have "of_nat m - 1 / 2 \<le> t" by simp
      moreover have "(of_nat m :: rat) = 2 ^ 53" by (simp add: m53)
      ultimately have "2 ^ 53 - 1 / 2 \<le> t" by (simp only:)
      then have "(2 ^ 53 - 1 / 2) * 2 powi e \<le> t * 2 powi e"
        using pe by (simp add: mult_right_mono)
      then show ?thesis by (simp add: xt e971 power_int_def)
    qed
    with True show ?thesis by (simp add: res)
  next
    case False
    then have r2: "float_of_ratio s a b = Finite s m' e'" and e'_le: "e' \<le> 971"
      by (simp_all add: res)
    have best': "\<forall>m2 e2. m2 < 2 ^ 53 \<and> - 1074 \<le> e2 \<longrightarrow>
              \<bar>of_nat m' * 2 powi e' - x\<bar> \<le> \<bar>of_nat m2 * 2 powi e2 - x\<bar>
            \<and> (of_nat m2 * 2 powi e2 \<noteq> (of_nat m' * 2 powi e' :: rat)
               \<and> \<bar>of_nat m' * 2 powi e' - x\<bar> = \<bar>of_nat m2 * 2 powi e2 - x\<bar> \<longrightarrow> even m')"
      unfolding val using best by blast
    have "s = s \<and> m' < 2 ^ 53 \<and> - 1074 \<le> e' \<and> e' \<le> 971 \<and> (2 ^ 52 \<le> m' \<or> e' = - 1074)
        \<and> (\<forall>m2 e2. m2 < 2 ^ 53 \<and> - 1074 \<le> e2 \<longrightarrow>
              \<bar>of_nat m' * 2 powi e' - x\<bar> \<le> \<bar>of_nat m2 * 2 powi e2 - x\<bar>
            \<and> (of_nat m2 * 2 powi e2 \<noteq> (of_nat m' * 2 powi e' :: rat)
               \<and> \<bar>of_nat m' * 2 powi e' - x\<bar> = \<bar>of_nat m2 * 2 powi e2 - x\<bar> \<longrightarrow> even m'))"
      using m'_lt e'_ge e'_le canon best' by blast
    then show ?thesis by (simp only: r2 pyfloat.case) blast
  qed
qed


lemma float_of_decimal_correct:
  "case float_of_decimal (Decimal s c e) of
      Finite s' m' e' \<Rightarrow>
        s' = s \<and> m' < 2 ^ 53 \<and> - 1074 \<le> e' \<and> e' \<le> 971 \<and> (2 ^ 52 \<le> m' \<or> e' = - 1074)
        \<and> (\<forall>m2 e2. m2 < 2 ^ 53 \<and> - 1074 \<le> e2 \<longrightarrow>
              \<bar>of_nat m' * 2 powi e' - (of_nat c * 10 powi e :: rat)\<bar>
                \<le> \<bar>of_nat m2 * 2 powi e2 - of_nat c * 10 powi e\<bar>
            \<and> (of_nat m2 * 2 powi e2 \<noteq> (of_nat m' * 2 powi e' :: rat)
               \<and> \<bar>of_nat m' * 2 powi e' - (of_nat c * 10 powi e :: rat)\<bar>
                   = \<bar>of_nat m2 * 2 powi e2 - of_nat c * 10 powi e\<bar> \<longrightarrow> even m'))
    | Infinity s' \<Rightarrow> s' = s \<and> (2 ^ 53 - 1 / 2) * 2 ^ 971 \<le> (of_nat c * 10 powi e :: rat)
    | NaN \<Rightarrow> False"
proof (cases "0 \<le> e")
  case True
  have x: "(of_nat c * 10 powi e :: rat) = of_nat (c * 10 ^ nat e) / of_nat 1"
    using True by (simp add: power_int_def)
  have f: "float_of_decimal (Decimal s c e) = float_of_ratio s (c * 10 ^ nat e) 1"
    using True by (simp add: float_of_decimal_def)
  show ?thesis unfolding f by (rule float_of_ratio_correct[OF _ x]) simp
next
  case False
  have x: "(of_nat c * 10 powi e :: rat) = of_nat c / of_nat (10 ^ nat (- e))"
    using False by (simp add: power_int_def field_simps)
  have f: "float_of_decimal (Decimal s c e) = float_of_ratio s c (10 ^ nat (- e))"
    using False by (simp add: float_of_decimal_def)
  show ?thesis unfolding f by (rule float_of_ratio_correct[OF _ x]) simp
qed

lemma float_value_finite:
  "float_value (Finite s m e) = Some ((if s then - 1 else 1) * of_nat m * 2 powi e)"
  by (simp add: float_value_def power_int_def inverse_eq_divide power_one_over)

lemma bit_length_tie_example: "bit_length 9007199254740993 = 54"
  by (simp add: bit_length.simps)
lemma floor_log2_tie_example: "floor_log2 9007199254740993 (Suc 0) = 53"
  by (simp add: floor_log2_def bit_length_tie_example bit_length_one scale2_def Let_def)
lemma float_of_decimal_tie_example:
  "float_of_decimal (Decimal False 9007199254740993 0) = Finite False 4503599627370496 1"
  by (simp add: float_of_decimal_def float_of_ratio_def floor_log2_tie_example scale2_def
      round_half_even_def Let_def)
lemma datetime_isoformat_example:
  "datetime_isoformat \<lparr>year = 2024, month = 3, day = 15, hour = 9, minute = 5, second = 0,
     microsecond = 1500\<rparr> = ''2024-03-15T09:05:00.001500''"
  by code_simp

subsection \<open>The characters of the ISO-8601 strings\<close>

lemma digit_code: "k < 10 \<Longrightarrow> (of_char (''0123456789'' ! k) :: nat) = 48 + k"
proof -
  assume "k < 10"
  then have "k \<in> {0, 1, 2, 3, 4, 5, 6, 7, 8, 9}" by auto
  then show ?thesis by auto
qed

lemma zero_pad_one: "n < 10 \<Longrightarrow> zero_pad (Suc 0) n = [''0123456789'' ! n]"
  by (simp add: zero_pad_def digits.simps[of n])

lemma zero_pad_step:
  assumes "n < 10 ^ Suc (Suc w)"
  shows "zero_pad (Suc (Suc w)) n = zero_pad (Suc w) (n div 10) @ [''0123456789'' ! (n mod 10)]"
proof (cases "n < 10")
  case True
  then have d: "digits n = [''0123456789'' ! n]" "n div 10 = 0" "n mod 10 = n"
    by (simp_all add: digits.simps[of n])
  have z: "digits 0 = ''0''" by (simp add: digits.simps[of 0])
  show ?thesis
    by (simp add: zero_pad_def d z replicate_append_same)
next
  case False
  then have d: "digits n = digits (n div 10) @ [''0123456789'' ! (n mod 10)]"
    by (subst digits.simps) simp
  have "n div 10 < 10 ^ Suc w" using assms by (simp add: less_mult_imp_div_less)
  from length_digits[OF this] have "length (digits (n div 10)) \<le> Suc w" .
  then show ?thesis by (simp add: zero_pad_def d Suc_diff_le)
qed

lemma zero_pad_codes:
  "n < 10 ^ Suc w \<Longrightarrow>
   map of_char (zero_pad (Suc w) n) = map (\<lambda>i. 48 + n div 10 ^ (w - i) mod 10) [0 ..< Suc w]"
proof (induction w arbitrary: n)
  case 0
  then show ?case by (simp add: zero_pad_one digit_code)
next
  case (Suc w)
  have lt: "n div 10 < 10 ^ Suc w" using Suc.prems by (simp add: less_mult_imp_div_less)
  have shift: "n div 10 div 10 ^ (w - i) = n div 10 ^ (Suc w - i)" if "i \<le> w" for i
    using that by (simp add: div_mult2_eq[symmetric] Suc_diff_le)
  have "map of_char (zero_pad (Suc (Suc w)) n) =
      map (\<lambda>i. 48 + n div 10 div 10 ^ (w - i) mod 10) [0 ..< Suc w] @ [48 + n mod 10]"
    by (simp add: zero_pad_step[OF Suc.prems] Suc.IH[OF lt] digit_code del: upt_Suc)
  also have "map (\<lambda>i. 48 + n div 10 div 10 ^ (w - i) mod 10) [0 ..< Suc w] =
      map (\<lambda>i. 48 + n div 10 ^ (Suc w - i) mod 10) [0 ..< Suc w]"
    by (rule map_cong) (auto simp: shift)
  finally show ?case by simp
qed

lemma zero_pad2_codes:
  assumes "n < 100"
  shows "map of_char (zero_pad 2 n) = [48 + n div 10 mod 10, 48 + n mod 10]"
proof -
  have "n < 10 ^ Suc 1" using assms by simp
  from zero_pad_codes[OF this]
  have "map of_char (zero_pad (Suc 1) n) = map (\<lambda>i. 48 + n div 10 ^ (1 - i) mod 10) [0 ..< Suc 1]" .
  moreover have "[0 ..< Suc 1] = [0, 1]" by (simp add: upt_conv_Cons)
  ultimately show ?thesis by (simp add: numeral_2_eq_2)
qed

lemma zero_pad4_codes:
  assumes "n < 10000"
  shows "map of_char (zero_pad 4 n) =
     [48 + n div 1000 mod 10, 48 + n div 100 mod 10, 48 + n div 10 mod 10, 48 + n mod 10]"
proof -
  have "n < 10 ^ Suc 3" using assms by simp
  from zero_pad_codes[OF this]
  have "map of_char (zero_pad (Suc 3) n) = map (\<lambda>i. 48 + n div 10 ^ (3 - i) mod 10) [0 ..< Suc 3]" .
  moreover have "[0 ..< Suc 3] = [0, 1, 2, 3]" by (simp add: upt_conv_Cons)
  moreover have "Suc 3 = 4" by simp
  ultimately show ?thesis by simp
qed

lemma zero_pad6_codes:
  assumes "n < 1000000"
  shows "map of_char (zero_pad 6 n) =
     [48 + n div 100000 mod 10, 48 + n div 10000 mod 10, 48 + n div 1000 mod 10,
      48 + n div 100 mod 10, 48 + n div 10 mod 10, 48 + n mod 10]"
proof -
  have "n < 10 ^ Suc 5" using assms by simp
  from zero_pad_codes[OF this]
  have "map of_char (zero_pad (Suc 5) n) = map (\<lambda>i. 48 + n div 10 ^ (5 - i) mod 10) [0 ..< Suc 5]" .
  moreover have "[0 ..< Suc 5] = [0, 1, 2, 3, 4, 5]" by (simp add: upt_conv_Cons)
  moreover have "Suc 5 = 6" by simp
  ultimately show ?thesis by simp
qed

lemma date_isoformat_codes:
  assumes "year d < 10000" "month d < 100" "day d < 100"
  shows "map of_char (date_isoformat d) =
     [48 + year d div 1000 mod 10, 48 + year d div 100 mod 10, 48 + year d div 10 mod 10,
      48 + year d mod 10, of_char CHR ''-'',
      48 + month d div 10 mod 10, 48 + month d mod 10, of_char CHR ''-'',
      48 + day d div 10 mod 10, 48 + day d mod 10 :: nat]"
  by (simp add: date_isoformat_def zero_pad4_codes[OF assms(1)] zero_pad2_codes[OF assms(2)]
      zero_pad2_codes[OF assms(3)])

lemma datetime_isoformat_codes:
  assumes "year t < 10000" "month t < 100" "day t < 100"
    "hour t < 100" "minute t < 100" "second t < 100" "microsecond t < 1000000"
  shows "map of_char (datetime_isoformat t) =
     map of_char (date_isoformat t) @
     [of_char CHR ''T'', 48 + hour t div 10 mod 10, 48 + hour t mod 10, of_char CHR '':'',
      48 + minute t div 10 mod 10, 48 + minute t mod 10, of_char CHR '':'',
      48 + second t div 10 mod 10, 48 + second t mod 10 :: nat] @
     (if microsecond t = 0 then []
      else [of_char CHR ''.'', 48 + microsecond t div 100000 mod 10,
            48 + microsecond t div 10000 mod 10, 48 + microsecond t div 1000 mod 10,
            48 + microsecond t div 100 mod 10, 48 + microsecond t div 10 mod 10,
            48 + microsecond t mod 10])"
  by (simp add: datetime_isoformat_def zero_pad2_codes[OF assms(4)] zero_pad2_codes[OF assms(5)]
      zero_pad2_codes[OF assms(6)] zero_pad6_codes[OF assms(7)])

text \<open>
  Claim C5.  The normalizer maps every decimal to its floating-point number: the
  canonical binary64 value of the same sign that is nearest to the decimal among all
  binary64 values, with an even mantissa where two are equally near, and infinity only
  from \<open>(2\<^sup>5\<^sup>3 - 1/2) \<sqdot> 2\<^sup>9\<^sup>7\<^sup>1\<close> on (12.50 gives 12.5, which is
  \<open>7036874417766400 \<sqdot> 2\<^sup>-\<^sup>4\<^sup>9\<close>).  It maps every calendar date to its ISO-8601 string
  \<open>YYYY-MM-DD\<close>, given character by character (2024-03-15 gives \<open>''2024-03-15''\<close>), and
  every timestamp to its ISO-8601 string \<open>YYYY-MM-DDTHH:MM:SS\<close>, followed by the six
  digits of the microseconds when they are not zero.  It returns a string, an integer,
  a boolean or \<open>None\<close> unchanged; normalizing a normalized value changes nothing.
\<close>

theorem normalize_value_contract:
  "(\<forall>d. normalize_value (PDecimal d) = Inr (PFloat (float_of_decimal d)))
   \<and> (\<forall>s c e.
        case float_of_decimal (Decimal s c e) of
          Finite s' m' e' \<Rightarrow>
            s' = s \<and> m' < 2 ^ 53 \<and> - 1074 \<le> e' \<and> e' \<le> 971 \<and> (2 ^ 52 \<le> m' \<or> e' = - 1074)
            \<and> (\<forall>m2 e2. m2 < 2 ^ 53 \<and> - 1074 \<le> e2 \<longrightarrow>
                  \<bar>of_nat m' * 2 powi e' - (of_nat c * 10 powi e :: rat)\<bar>
                    \<le> \<bar>of_nat m2 * 2 powi e2 - of_nat c * 10 powi e\<bar>
                \<and> (of_nat m2 * 2 powi e2 \<noteq> (of_nat m' * 2 powi e' :: rat)
                   \<and> \<bar>of_nat m' * 2 powi e' - (of_nat c * 10 powi e :: rat)\<bar>
                       = \<bar>of_nat m2 * 2 powi e2 - of_nat c * 10 powi e\<bar> \<longrightarrow> even m'))
        | Infinity s' \<Rightarrow> s' = s \<and> (2 ^ 53 - 1 / 2) * 2 ^ 971 \<le> (of_nat c * 10 powi e :: rat)
        | NaN \<Rightarrow> False)
   \<and> (\<forall>s m e. float_value (Finite s m e) = Some ((if s then - 1 else 1) * of_nat m * 2 powi e))
   \<and> normalize_value (PDecimal (Decimal False 1250 (- 2))) =
       Inr (PFloat (Finite False 7036874417766400 (- 49)))
   \<and> float_value (Finite False 7036874417766400 (- 49)) = Some (25 / 2)
   \<and> (\<forall>d. normalize_value (PDate d) = Inr (PStr (date_isoformat d)))
   \<and> normalize_value (PDate \<lparr>year = 2024, month = 3, day = 15\<rparr>) = Inr (PStr ''2024-03-15'')
   \<and> (\<forall>d::date. year d < 10000 \<and> month d < 100 \<and> day d < 100 \<longrightarrow>
          length (date_isoformat d) = 10 \<and> date_isoformat d ! 4 = CHR ''-''
          \<and> date_isoformat d ! 7 = CHR ''-'')
   \<and> (\<forall>d::date. year d < 10000 \<and> month d < 100 \<and> day d < 100 \<longrightarrow>
          map of_char (date_isoformat d) =
            [48 + year d div 1000 mod 10, 48 + year d div 100 mod 10,
             48 + year d div 10 mod 10, 48 + year d mod 10, of_char CHR ''-'',
             48 + month d div 10 mod 10, 48 + month d mod 10, of_char CHR ''-'',
             48 + day d div 10 mod 10, 48 + day d mod 10 :: nat])
   \<and> (\<forall>t. normalize_value (PDatetime t) = Inr (PStr (datetime_isoformat t)))
   \<and> (\<forall>t. year t < 10000 \<and> month t < 100 \<and> day t < 100 \<and> hour t < 100 \<and> minute t < 100
          \<and> second t < 100 \<and> microsecond t < 1000000 \<longrightarrow>
          map of_char (datetime_isoformat t) =
            [48 + year t div 1000 mod 10, 48 + year t div 100 mod 10,
             48 + year t div 10 mod 10, 48 + year t mod 10, of_char CHR ''-'',
             48 + month t div 10 mod 10, 48 + month t mod 10, of_char CHR ''-'',
             48 + day t div 10 mod 10, 48 + day t mod 10, of_char CHR ''T'',
             48 + hour t div 10 mod 10, 48 + hour t mod 10, of_char CHR '':'',
             48 + minute t div 10 mod 10, 48 + minute t mod 10, of_char CHR '':'',
             48 + second t div 10 mod 10, 48 + second t mod 10 :: nat] @
            (if microsecond t = 0 then []
             else [of_char CHR ''.'', 48 + microsecond t div 100000 mod 10,
                   48 + microsecond t div 10000 mod 10, 48 + microsecond t div 1000 mod 10,
                   48 + microsecond t div 100 mod 10, 48 + microsecond t div 10 mod 10,
                   48 + microsecond t mod 10]))
   \<and> (\<forall>s. normalize_value (PStr s) = Inr (PStr s))
   \<and> (\<forall>i. normalize_value (PInt i) = Inr (PInt i))
   \<and> (\<forall>b. normalize_value (PBool b) = Inr (PBool b))
   \<and> normalize_value PNone = Inr PNone
   \<and> (\<forall>v w. normalize_value v = Inr w \<longrightarrow> normalize_value w = Inr w)"
proof -
  have dec: "normalize_value (PDecimal d) = Inr (PFloat (float_of_decimal d))" for d
    by (simp add: normalize_value_def default_enc_def)
  have ex1: "normalize_value (PDecimal (Decimal False 1250 (- 2))) =
       Inr (PFloat (Finite False 7036874417766400 (- 49)))"
    using float_of_decimal_example by (simp add: dec)
  have ex2: "float_value (Finite False 7036874417766400 (- 49)) = Some (25 / 2)"
    using float_value_example by simp
  have dat: "normalize_value (PDate d) = Inr (PStr (date_isoformat d))" for d
    by (simp add: normalize_value_def default_enc_def)
  have ex3: "normalize_value (PDate \<lparr>year = 2024, month = 3, day = 15\<rparr>) = Inr (PStr ''2024-03-15'')"
    by (simp only: dat date_isoformat_example)
  have ts: "normalize_value (PDatetime t) = Inr (PStr (datetime_isoformat t))" for t
    by (simp add: normalize_value_def default_enc_def)
  have nat: "normalize_value (PStr s) = Inr (PStr s)" "normalize_value (PInt i) = Inr (PInt i)"
    "normalize_value (PBool b) = Inr (PBool b)" "normalize_value PNone = Inr PNone" for s i b
    by (simp_all add: normalize_value_def)
  have tcodes: "map of_char (datetime_isoformat t) =
            [48 + year t div 1000 mod 10, 48 + year t div 100 mod 10,
             48 + year t div 10 mod 10, 48 + year t mod 10, of_char CHR ''-'',
             48 + month t div 10 mod 10, 48 + month t mod 10, of_char CHR ''-'',
             48 + day t div 10 mod 10, 48 + day t mod 10, of_char CHR ''T'',
             48 + hour t div 10 mod 10, 48 + hour t mod 10, of_char CHR '':'',
             48 + minute t div 10 mod 10, 48 + minute t mod 10, of_char CHR '':'',
             48 + second t div 10 mod 10, 48 + second t mod 10 :: nat] @
            (if microsecond t = 0 then []
             else [of_char CHR ''.'', 48 + microsecond t div 100000 mod 10,
                   48 + microsecond t div 10000 mod 10, 48 + microsecond t div 1000 mod 10,
                   48 + microsecond t div 100 mod 10, 48 + microsecond t div 10 mod 10,
                   48 + microsecond t mod 10])"
    if "year t < 10000 \<and> month t < 100 \<and> day t < 100 \<and> hour t < 100 \<and> minute t < 100
          \<and> second t < 100 \<and> microsecond t < 1000000" for t
    using that datetime_isoformat_codes[of t] date_isoformat_codes[of t] by simp
  show ?thesis
    apply (intro conjI allI impI)
    subgoal by (rule dec)
    subgoal by (rule float_of_decimal_correct)
    subgoal by (rule float_value_finite)
    subgoal by (rule ex1)
    subgoal by (rule ex2)
    subgoal by (rule dat)
    subgoal by (rule ex3)
    subgoal using date_isoformat_shape by blast
    subgoal using date_isoformat_shape by blast
    subgoal using date_isoformat_shape by blast
    subgoal using date_isoformat_codes by blast
    subgoal by (rule ts)
    subgoal by (rule tcodes)
    subgoal by (rule nat)
    subgoal by (rule nat)
    subgoal by (rule nat)
    subgoal by (rule nat)
    subgoal by (rule normalize_value_idem)
    done
qed

theorem normalize_value_contract_witness:
  "normalize_value (PDate \<lparr>year = 2024, month = 3, day = 15\<rparr>) = Inr (PStr ''2024-03-15'')
   \<and> normalize_value (PStr ''2024-03-15'') = Inr (PStr ''2024-03-15'')
   \<and> year \<lparr>year = 2024, month = 3, day = 15\<rparr> < 10000
   \<and> month \<lparr>year = 2024, month = 3, day = 15\<rparr> < 100
   \<and> day \<lparr>year = 2024, month = 3, day = 15\<rparr> < 100
   \<and> length (date_isoformat \<lparr>year = 2024, month = 3, day = 15\<rparr>) = 10
   \<and> map of_char (date_isoformat \<lparr>year = 2024, month = 3, day = 15\<rparr>) =
       [50, 48, 50, 52, 45, 48, 51, 45, 49, 53 :: nat]
   \<and> map of_char (datetime_isoformat \<lparr>year = 2024, month = 3, day = 15, hour = 9,
         minute = 5, second = 0, microsecond = 1500\<rparr>) =
       [50, 48, 50, 52, 45, 48, 51, 45, 49, 53, 84, 48, 57, 58, 48, 53, 58, 48, 48,
        46, 48, 48, 49, 53, 48, 48 :: nat]
   \<and> float_of_decimal (Decimal False 1250 (- 2)) = Finite False 7036874417766400 (- 49)
   \<and> (1::nat) < 2 ^ 53 \<and> (- 1074 :: int) \<le> 3
   \<and> \<bar>of_nat 7036874417766400 * 2 powi (- 49) - (of_nat 1250 * 10 powi (- 2) :: rat)\<bar>
       \<le> \<bar>of_nat 1 * 2 powi 3 - of_nat 1250 * 10 powi (- 2)\<bar>
   \<and> float_of_decimal (Decimal False 9007199254740993 0) = Finite False 4503599627370496 1
   \<and> (4503599627370497::nat) < 2 ^ 53 \<and> (- 1074 :: int) \<le> 1
   \<and> of_nat 4503599627370497 * 2 powi 1 \<noteq> (of_nat 4503599627370496 * 2 powi 1 :: rat)
   \<and> \<bar>of_nat 4503599627370496 * 2 powi 1 - (of_nat 9007199254740993 * 10 powi 0 :: rat)\<bar>
       = \<bar>of_nat 4503599627370497 * 2 powi 1 - of_nat 9007199254740993 * 10 powi 0\<bar>
   \<and> even (4503599627370496::nat)"
proof -
  note c = normalize_value_contract
  let ?d = "\<lparr>year = 2024, month = 3, day = 15\<rparr>"
  let ?t = "\<lparr>year = 2024, month = 3, day = 15, hour = 9, minute = 5, second = 0,
       microsecond = 1500\<rparr>"
  note c2 = c[THEN conjunct2]
  note c3 = c2[THEN conjunct2]
  note c7 = c3[THEN conjunct2, THEN conjunct2, THEN conjunct2, THEN conjunct2]
  note c8 = c7[THEN conjunct2]
  note c9 = c8[THEN conjunct2]
  note c11 = c9[THEN conjunct2, THEN conjunct2]
  note c16 = c11[THEN conjunct2, THEN conjunct2, THEN conjunct2, THEN conjunct2, THEN conjunct2]
  have a: "normalize_value (PDate ?d) = Inr (PStr ''2024-03-15'')"
    by (rule c7[THEN conjunct1])
  have b: "normalize_value (PStr ''2024-03-15'') = Inr (PStr ''2024-03-15'')"
    using c16 a by blast
  have h: "year ?d < 10000 \<and> month ?d < 100 \<and> day ?d < 100"
    by simp
  have l: "length (date_isoformat ?d) = 10"
    using c8[THEN conjunct1] h by blast
  have dc: "map of_char (date_isoformat ?d) = [50, 48, 50, 52, 45, 48, 51, 45, 49, 53 :: nat]"
    using c9[THEN conjunct1, rule_format, OF h] by simp
  have ht: "year ?t < 10000 \<and> month ?t < 100 \<and> day ?t < 100 \<and> hour ?t < 100 \<and> minute ?t < 100
          \<and> second ?t < 100 \<and> microsecond ?t < 1000000"
    by simp
  have tc: "map of_char (datetime_isoformat ?t) =
       [50, 48, 50, 52, 45, 48, 51, 45, 49, 53, 84, 48, 57, 58, 48, 53, 58, 48, 48,
        46, 48, 48, 49, 53, 48, 48 :: nat]"
    using c11[THEN conjunct1, rule_format, OF ht] by simp
  have f1: "float_of_decimal (Decimal False 1250 (- 2)) = Finite False 7036874417766400 (- 49)"
    using float_of_decimal_example by simp
  have g1: "(1::nat) < 2 ^ 53 \<and> (- 1074 :: int) \<le> 3" by simp
  have n1: "\<bar>of_nat 7036874417766400 * 2 powi (- 49) - (of_nat 1250 * 10 powi (- 2) :: rat)\<bar>
       \<le> \<bar>of_nat 1 * 2 powi 3 - of_nat 1250 * 10 powi (- 2)\<bar>"
    using c2[THEN conjunct1, rule_format, of False 1250 "- 2"] g1
    unfolding f1 pyfloat.case by blast
  have f2: "float_of_decimal (Decimal False 9007199254740993 0) = Finite False 4503599627370496 1"
    by (rule float_of_decimal_tie_example)
  have g2: "(4503599627370497::nat) < 2 ^ 53 \<and> (- 1074 :: int) \<le> 1" by simp
  have ne: "of_nat 4503599627370497 * 2 powi 1 \<noteq> (of_nat 4503599627370496 * 2 powi 1 :: rat)"
    by simp
  have eq: "\<bar>of_nat 4503599627370496 * 2 powi 1 - (of_nat 9007199254740993 * 10 powi 0 :: rat)\<bar>
       = \<bar>of_nat 4503599627370497 * 2 powi 1 - of_nat 9007199254740993 * 10 powi 0\<bar>"
    by simp
  have ev: "even (4503599627370496::nat)"
    using c2[THEN conjunct1, rule_format, of False 9007199254740993 0] g2 ne eq
    unfolding f2 pyfloat.case by blast
  from a b h l dc tc f1 g1 n1 f2 g2 ne eq ev show ?thesis by blast
qed

section \<open>Properties of one attempt and of the retry loop\<close>

lemma try_body_success:
  assumes "json_dumps p = Inr body" "env (calls st) = Response r" "status_code r = 200"
    "json_body r = Some (JObj kvs)" "map_of kvs ''success'' = Some v" "truthy v"
  shows "try_body env url p retry st =
    (Ok True, st\<lparr>calls := calls st + 1, trace := trace st @ [Post url body]\<rparr>)"
  using assms by (simp add: try_body_def emit_def)

lemma try_body_raise:
  assumes "json_dumps p = Inr body" "env (calls st) = Raise e"
  shows "try_body env url p retry st =
    (Exc e, st\<lparr>calls := calls st + 1, trace := trace st @ [Post url body]\<rparr>)"
  using assms by (simp add: try_body_def emit_def)

lemma try_body_unparseable:
  assumes "json_dumps p = Inr body" "env (calls st) = Response r" "status_code r = 200"
    "json_body r = None"
  shows "try_body env url p retry st =
    (Exc JSONDecodeError, st\<lparr>calls := calls st + 1, trace := trace st @ [Post url body]\<rparr>)"
  using assms by (simp add: try_body_def emit_def)

lemma attempt_exc:
  "try_body env url p retry st = (Exc e, st') \<Longrightarrow>
   attempt env url p retry st =
     (Ok False, st'\<lparr>trace := trace st' @ [Print (RetryError (retry + 1) e), Sleep 2]\<rparr>)"
  by (simp add: attempt_def emit_def)

lemma attempt_ok:
  "try_body env url p retry st = (Ok b, st') \<Longrightarrow> attempt env url p retry st = (Ok b, st')"
  by (simp add: attempt_def)

lemma attempt_interrupted:
  "try_body env url p retry st = (Interrupted, st') \<Longrightarrow>
   attempt env url p retry st = (Interrupted, st')"
  by (simp add: attempt_def)

lemma attempt_never_exc: "fst (attempt env url p retry st) \<noteq> Exc e"
  by (simp add: attempt_def split: prod.splits result.splits)

lemma json_dumps_example: "json_dumps example_payload = Inr example_payload"
  by (simp add: json_dumps_def example_payload_def example_row_def normalize_row_def
      normalize_value_def)

text \<open>
  Claim C4.  As soon as an attempt receives HTTP 200 with a body whose \<open>success\<close> is true,
  the chunk transfer succeeds and makes no further attempt, whatever retries were left;
  in particular, when the first two attempts raise transport errors and the third is
  answered with \<open>success: true\<close>, the chunk transfer succeeds after exactly three
  requests.
\<close>

theorem success_ends_retries:
  assumes "json_dumps p = Inr body" "status_code r = 200" "json_body r = Some (JObj kvs)"
    "map_of kvs ''success'' = Some v" "truthy v"
  shows "(env (calls st) = Response r \<longrightarrow>
            retry_loop env url p (retry # rest) st =
              (Ok True, st\<lparr>calls := calls st + 1, trace := trace st @ [Post url body]\<rparr>))
       \<and> (env (calls st) = Raise e1 \<and> env (calls st + 1) = Raise e2 \<and>
            env (calls st + 2) = Response r \<longrightarrow>
            retry_loop env url p [0, 1, 2] st =
              (Ok True,
               st\<lparr>calls := calls st + 3,
                  trace := trace st @
                    [Post url body, Print (RetryError 1 e1), Sleep 2,
                     Post url body, Print (RetryError 2 e2), Sleep 2,
                     Post url body]\<rparr>))"
proof (intro conjI impI)
  assume "env (calls st) = Response r"
  from try_body_success[where env=env and st=st, OF assms(1) this assms(2-5)]
  show "retry_loop env url p (retry # rest) st =
      (Ok True, st\<lparr>calls := calls st + 1, trace := trace st @ [Post url body]\<rparr>)"
    by (simp add: attempt_ok)
next
  assume a: "env (calls st) = Raise e1 \<and> env (calls st + 1) = Raise e2 \<and>
            env (calls st + 2) = Response r"
  define s1 where "s1 = st\<lparr>calls := calls st + 1,
      trace := trace st @ [Post url body, Print (RetryError 1 e1), Sleep 2]\<rparr>"
  define s2 where "s2 = st\<lparr>calls := calls st + 2,
      trace := trace st @ [Post url body, Print (RetryError 1 e1), Sleep 2,
                           Post url body, Print (RetryError 2 e2), Sleep 2]\<rparr>"
  have 1: "attempt env url p 0 st = (Ok False, s1)"
    using attempt_exc[OF try_body_raise[where env=env and st=st and e=e1 and url=url and retry=0, OF assms(1)]] a
    by (simp add: s1_def)
  have 2: "attempt env url p (Suc 0) s1 = (Ok False, s2)"
    using attempt_exc[OF try_body_raise[where env=env and st=s1 and e=e2 and url=url and retry="Suc 0", OF assms(1)]] a
    by (simp add: s1_def s2_def)
  have 3: "attempt env url p 2 s2 =
      (Ok True, s2\<lparr>calls := calls s2 + 1, trace := trace s2 @ [Post url body]\<rparr>)"
    using attempt_ok[OF try_body_success[where env=env and st=s2 and url=url and retry=2, OF assms(1) _ assms(2-5)]] a
    by (simp add: s2_def)
  show "retry_loop env url p [0, 1, 2] st =
      (Ok True,
       st\<lparr>calls := calls st + 3,
          trace := trace st @
            [Post url body, Print (RetryError 1 e1), Sleep 2,
             Post url body, Print (RetryError 2 e2), Sleep 2,
             Post url body]\<rparr>)"
    by (simp add: 1 2 3) (simp add: s2_def)
qed

theorem success_ends_retries_witness:
  "retry_loop (\<lambda>k. if k < 2 then Raise (RequestError ''timed out'') else Response accepted)
     ''http://host/api/sync'' example_payload [0, 1, 2] initial_state =
   (Ok True,
    \<lparr>calls = 3,
     trace = [Post ''http://host/api/sync'' example_payload,
              Print (RetryError 1 (RequestError ''timed out'')), Sleep 2,
              Post ''http://host/api/sync'' example_payload,
              Print (RetryError 2 (RequestError ''timed out'')), Sleep 2,
              Post ''http://host/api/sync'' example_payload]\<rparr>)
   \<and> retry_loop (\<lambda>k. Response accepted) ''http://host/api/sync'' example_payload [0, 1, 2]
       initial_state =
     (Ok True, \<lparr>calls = 1, trace = [Post ''http://host/api/sync'' example_payload]\<rparr>)"
proof -
  have r: "status_code accepted = 200"
    "json_body accepted = Some (JObj [(''success'', JBool True)])"
    "map_of [(''success'', JBool True)] ''success'' = Some (JBool True)" "truthy (JBool True)"
    by (simp_all add: accepted_def)
  from success_ends_retries [OF json_dumps_example r,
      where env = "\<lambda>k. if k < 2 then Raise (RequestError ''timed out'') else Response accepted"
        and st = initial_state and url = "''http://host/api/sync''"
        and ?e1.0 = "RequestError ''timed out''" and ?e2.0 = "RequestError ''timed out''"]
    success_ends_retries [OF json_dumps_example r,
      where env = "\<lambda>k. Response accepted" and st = initial_state
        and url = "''http://host/api/sync''" and retry = 0 and rest = "[1, 2]"]
  show ?thesis by (simp add: initial_state_def)
qed

text \<open>
  Claim C10.  An attempt that receives HTTP 200 with a body that is not JSON neither
  ends the run nor succeeds: the parse error is handled like a transport error, the
  attempt counts as one failed retry, and the pause of two seconds comes before the
  next attempt.
\<close>

theorem unparseable_body_is_failed_attempt:
  assumes "json_dumps p = Inr body" "env (calls st) = Response r" "status_code r = 200"
    "json_body r = None"
  shows "attempt env url p retry st =
           (Ok False,
            st\<lparr>calls := calls st + 1,
               trace := trace st @
                 [Post url body, Print (RetryError (retry + 1) JSONDecodeError), Sleep 2]\<rparr>)
       \<and> retry_loop env url p (retry # rest) st =
           retry_loop env url p rest
             (st\<lparr>calls := calls st + 1,
                trace := trace st @
                  [Post url body, Print (RetryError (retry + 1) JSONDecodeError), Sleep 2]\<rparr>)"
proof -
  have "attempt env url p retry st =
           (Ok False,
            st\<lparr>calls := calls st + 1,
               trace := trace st @
                 [Post url body, Print (RetryError (retry + 1) JSONDecodeError), Sleep 2]\<rparr>)"
    using attempt_exc[OF try_body_unparseable[where env=env and st=st and url=url and retry=retry, OF assms]] by simp
  then show ?thesis by simp
qed

theorem unparseable_body_is_failed_attempt_witness:
  "attempt (\<lambda>k. Response html_page) ''http://host/api/sync'' example_payload 0 initial_state =
     (Ok False,
      \<lparr>calls = 1,
       trace = [Post ''http://host/api/sync'' example_payload,
                Print (RetryError 1 JSONDecodeError), Sleep 2]\<rparr>)"
proof -
  have r: "status_code html_page = 200" "json_body html_page = None"
    by (simp_all add: html_page_def)
  from unparseable_body_is_failed_attempt [OF json_dumps_example _ r,
      where env = "\<lambda>k. Response html_page" and st = initial_state
        and url = "''http://host/api/sync''" and retry = 0]
  show ?thesis by (simp add: initial_state_def)
qed

lemma try_body_rejected_example:
  "try_body (\<lambda>k. Response rejected) url example_payload retry st =
     (Ok False,
      st\<lparr>calls := calls st + 1,
         trace := trace st @
           [Post url example_payload, Print (ApiError (JStr ''Invalid data'')),
            Print (ValidationErrors (JArr [JStr ''row 1'', JStr ''row 2'']))]\<rparr>)"
  by (simp add: try_body_def json_dumps_example rejected_def emit_def)

text \<open>
  Claim C3.  The claim says that an attempt answered with HTTP 200 and \<open>success: false\<close>
  logs the error and at most two validation errors, uses up one retry and pauses two
  seconds before the next attempt, as a transport failure does.  The run below is
  answered that way three times: the error and the first two of three validation
  errors are logged and the three retries are used up, but no pause occurs anywhere.
\<close>

theorem rejected_payload_retried_without_pause:
  "retry_loop (\<lambda>k. Response rejected) ''http://host/api/sync'' example_payload [0, 1, 2]
     initial_state =
   (Ok False,
    \<lparr>calls = 3,
     trace = [Post ''http://host/api/sync'' example_payload,
              Print (ApiError (JStr ''Invalid data'')),
              Print (ValidationErrors (JArr [JStr ''row 1'', JStr ''row 2''])),
              Post ''http://host/api/sync'' example_payload,
              Print (ApiError (JStr ''Invalid data'')),
              Print (ValidationErrors (JArr [JStr ''row 1'', JStr ''row 2''])),
              Post ''http://host/api/sync'' example_payload,
              Print (ApiError (JStr ''Invalid data'')),
              Print (ValidationErrors (JArr [JStr ''row 1'', JStr ''row 2'']))]\<rparr>)
   \<and> Sleep 2 \<notin> set (trace (snd (retry_loop (\<lambda>k. Response rejected) ''http://host/api/sync''
         example_payload [0, 1, 2] initial_state)))"
  by (simp add: attempt_ok[OF try_body_rejected_example] initial_state_def)

section \<open>Properties of the chunk loop\<close>

lemma sync_chunks_append:
  "sync_chunks env url cfg t done st = (Ok None, st1) \<Longrightarrow>
   sync_chunks env url cfg t (done @ rest) st = sync_chunks env url cfg t rest st1"
proof (induction "done" arbitrary: st)
  case Nil
  then show ?case by simp
next
  case (Cons c cs)
  then show ?case
    by (auto split: prod.splits result.splits if_splits)
qed

lemma sync_chunks_failed_chunk:
  "retry_loop env url (make_payload cfg t c) [0, 1, 2] st = (Ok False, st') \<Longrightarrow>
   sync_chunks env url cfg t (c # rest) st =
     (Ok (Some False), st'\<lparr>trace := trace st' @ [Print (FailedToSync t)]\<rparr>)"
  by (simp add: emit_def)

lemma retry_loop_three_failures:
  assumes "attempt env url p 0 st = (Ok False, sa)" "attempt env url p 1 sa = (Ok False, sb)"
    "attempt env url p 2 sb = (Ok False, sc)"
  shows "retry_loop env url p [0, 1, 2] st = (Ok False, sc)"
  using assms by (simp only: retry_loop.simps) simp

lemma chunk_data_example: "chunk_data [example_row] 1000 = Inr [[example_row]]"
  by code_simp

lemma enumerate_tables:
  "zip [1 ..< Suc (length tables_to_sync)] tables_to_sync =
     [(1, ''acc_product''), (2, ''acc_invmast''), (3, ''acc_invdetails''),
      (4, ''acc_purchasemaster''), (5, ''acc_purchasedetails''), (6, ''acc_production''),
      (7, ''acc_productiondetails'')]"
  by (simp add: tables_to_sync_def upt_conv_Cons)

lemma make_payload_example:
  "make_payload example_config ''acc_product'' [example_row] = example_payload"
  by (simp add: make_payload_def example_config_def example_payload_def)

lemma attempt_server_error_example:
  "attempt (\<lambda>k. Response server_error) url example_payload retry st =
     (Ok False,
      st\<lparr>calls := calls st + 1,
         trace := trace st @
           [Post url example_payload, Print (RetryStatus (retry + 1) 500),
            Print (ResponseText ''Internal Server Error''), Sleep 2]\<rparr>)"
  by (simp add: attempt_def try_body_def json_dumps_example server_error_def emit_def)

text \<open>
  Claim C2.  When the chunks before a chunk were delivered and that chunk fails all three
  attempts, its transfer reports failure and the table transfer returns failure at
  once: the trace ends with the third attempt and the failure message, whatever
  chunks were left, so none of them is sent.
\<close>

theorem failed_chunk_aborts_table:
  assumes before: "sync_chunks env url cfg t done st = (Ok None, st0)"
    and first: "attempt env url (make_payload cfg t c) 0 st0 = (Ok False, st1)"
    and second: "attempt env url (make_payload cfg t c) 1 st1 = (Ok False, st2)"
    and third: "attempt env url (make_payload cfg t c) 2 st2 = (Ok False, st3)"
  shows "retry_loop env url (make_payload cfg t c) [0, 1, 2] st0 = (Ok False, st3)
       \<and> sync_chunks env url cfg t (done @ c # rest) st =
           (Ok (Some False), st3\<lparr>trace := trace st3 @ [Print (FailedToSync t)]\<rparr>)"
  using retry_loop_three_failures[OF first second third]
    sync_chunks_append[OF before, of "c # rest"]
  by (simp add: sync_chunks_failed_chunk del: sync_chunks.simps retry_loop.simps)

theorem failed_chunk_aborts_table_witness:
  "sync_chunks (\<lambda>k. Response server_error) ''http://host/api/sync'' example_config
     ''acc_product'' [[example_row], [example_row]] initial_state =
   (Ok (Some False),
    \<lparr>calls = 3,
     trace = [Post ''http://host/api/sync'' example_payload, Print (RetryStatus 1 500),
              Print (ResponseText ''Internal Server Error''), Sleep 2,
              Post ''http://host/api/sync'' example_payload, Print (RetryStatus 2 500),
              Print (ResponseText ''Internal Server Error''), Sleep 2,
              Post ''http://host/api/sync'' example_payload, Print (RetryStatus 3 500),
              Print (ResponseText ''Internal Server Error''), Sleep 2,
              Print (FailedToSync ''acc_product'')]\<rparr>)"
proof -
  let ?env = "\<lambda>k::nat. Response server_error"
  let ?url = "''http://host/api/sync''"
  let ?p = "make_payload example_config ''acc_product'' [example_row]"
  define s1 where "s1 = \<lparr>calls = 1,
     trace = [Post ?url example_payload, Print (RetryStatus 1 500),
              Print (ResponseText ''Internal Server Error''), Sleep 2]\<rparr>"
  define s2 where "s2 = \<lparr>calls = 2,
     trace = [Post ?url example_payload, Print (RetryStatus 1 500),
              Print (ResponseText ''Internal Server Error''), Sleep 2,
              Post ?url example_payload, Print (RetryStatus 2 500),
              Print (ResponseText ''Internal Server Error''), Sleep 2]\<rparr>"
  define s3 where "s3 = \<lparr>calls = 3,
     trace = [Post ?url example_payload, Print (RetryStatus 1 500),
              Print (ResponseText ''Internal Server Error''), Sleep 2,
              Post ?url example_payload, Print (RetryStatus 2 500),
              Print (ResponseText ''Internal Server Error''), Sleep 2,
              Post ?url example_payload, Print (RetryStatus 3 500),
              Print (ResponseText ''Internal Server Error''), Sleep 2]\<rparr>"
  have b: "sync_chunks ?env ?url example_config ''acc_product'' [] initial_state =
      (Ok None, initial_state)"
    by simp
  have 1: "attempt ?env ?url ?p 0 initial_state = (Ok False, s1)"
    by (simp add: make_payload_example attempt_server_error_example initial_state_def s1_def)
  have 2: "attempt ?env ?url ?p 1 s1 = (Ok False, s2)"
    by (simp add: make_payload_example attempt_server_error_example s1_def s2_def)
  have 3: "attempt ?env ?url ?p 2 s2 = (Ok False, s3)"
    by (simp add: make_payload_example attempt_server_error_example s2_def s3_def)
  from failed_chunk_aborts_table [OF b 1 2 3, of "[[example_row]]"]
  show ?thesis by (simp add: s3_def del: sync_chunks.simps)
qed

section \<open>Properties of the run\<close>

lemma try_body_interrupt:
  assumes "json_dumps p = Inr body" "env (calls st) = Interrupt"
  shows "try_body env url p retry st =
    (Interrupted, st\<lparr>calls := calls st + 1, trace := trace st @ [Post url body]\<rparr>)"
  using assms by (simp add: try_body_def emit_def)

lemma main_closes_after_sync:
  "sync_data_to_api dat cfg env = (Ok success, st) \<Longrightarrow>
   main (Some cfg) True (Ok dat) env =
     \<lparr>exit_code = (if success then 0 else 1), connection = Closed, events = trace st\<rparr>"
  by (simp add: main_def)

text \<open>
  Claim C8.  The claim says that the database connection is closed on every exit path.
  The connection is closed when the transfer returns, with success or failure; the
  run below is interrupted by the user during its first request and exits with code 1
  while the connection is still open.
\<close>

theorem interrupt_leaves_connection_open:
  "main (Some example_config) True (Ok example_data) (\<lambda>k. Interrupt) =
     \<lparr>exit_code = 1, connection = Connected,
      events = [Print (Syncing 1 1 ''acc_product''),
                Post ''http://host/api/sync'' example_payload]\<rparr>"
proof -
  have "attempt (\<lambda>k. Interrupt) url example_payload retry st =
      (Interrupted, st\<lparr>calls := calls st + 1, trace := trace st @ [Post url example_payload]\<rparr>)"
    for url retry st
    by (rule attempt_interrupted) (simp add: try_body_interrupt[OF json_dumps_example])
  then have "sync_data_to_api example_data example_config (\<lambda>k. Interrupt) =
      (Interrupted,
       \<lparr>calls = 1,
        trace = [Print (Syncing 1 1 ''acc_product''),
                 Post ''http://host/api/sync'' example_payload]\<rparr>)"
    unfolding sync_data_to_api_def enumerate_tables
    by (simp add: example_config_def example_data_def chunk_data_example
        make_payload_example[unfolded example_config_def] initial_state_def emit_def)
  then show ?thesis by (simp add: main_def)
qed

section \<open>Properties of the table loop\<close>

lemma posted_append: "posted (xs @ ys) = posted xs @ posted ys"
  by (induction xs rule: posted.induct) simp_all

lemma posted_emit_print [simp]: "posted (trace (emit (Print l) st)) = posted (trace st)"
  by (simp add: emit_def posted_append)

lemma posted_emit_sleep [simp]: "posted (trace (emit (Sleep n) st)) = posted (trace st)"
  by (simp add: emit_def posted_append)

lemma posted_emit_post:
  "posted (trace (emit (Post url body) st)) = posted (trace st) @ [table body]"
  by (simp add: emit_def posted_append)

lemma json_dumps_table: "json_dumps p = Inr body \<Longrightarrow> table body = table p"
  by (auto simp: json_dumps_def split: sum.splits)

lemma try_body_posted:
  assumes "try_body env url p retry st = (res, st')"
  shows "set (posted (trace st')) \<subseteq> insert (table p) (set (posted (trace st)))"
proof (cases "json_dumps p")
  case (Inl e)
  with assms show ?thesis by (auto simp: try_body_def)
next
  case (Inr body)
  have "posted (trace st') = posted (trace st) @ [table p]"
    using assms Inr json_dumps_table[OF Inr] unfolding try_body_def Let_def
    by (auto simp: posted_emit_post split: outcome.splits if_splits option.splits sum.splits)
  then show ?thesis by auto
qed

lemma attempt_posted:
  assumes "attempt env url p retry st = (res, st')"
  shows "set (posted (trace st')) \<subseteq> insert (table p) (set (posted (trace st)))"
proof -
  obtain r0 s0 where t: "try_body env url p retry st = (r0, s0)" by (cases "try_body env url p retry st")
  from try_body_posted[OF t] have "set (posted (trace s0)) \<subseteq> insert (table p) (set (posted (trace st)))" .
  moreover have "posted (trace st') = posted (trace s0)"
    using assms t by (auto simp: attempt_def split: result.splits)
  ultimately show ?thesis by simp
qed

lemma retry_loop_posted:
  "retry_loop env url p rs st = (res, st') \<Longrightarrow>
   set (posted (trace st')) \<subseteq> insert (table p) (set (posted (trace st)))"
proof (induction rs arbitrary: st)
  case Nil
  then show ?case by auto
next
  case (Cons r rs)
  obtain a sa where a: "attempt env url p r st = (a, sa)" by (cases "attempt env url p r st")
  note pa = attempt_posted[OF a]
  show ?case
  proof (cases "a = Ok False")
    case True
    with Cons.prems a have "retry_loop env url p rs sa = (res, st')" by simp
    from Cons.IH[OF this] pa show ?thesis by blast
  next
    case False
    with Cons.prems a have "st' = sa" by (auto split: result.splits if_splits)
    with pa show ?thesis by simp
  qed
qed

lemma sync_chunks_posted:
  "sync_chunks env url cfg t cs st = (res, st') \<Longrightarrow>
   set (posted (trace st')) \<subseteq> insert t (set (posted (trace st)))"
proof (induction cs arbitrary: st)
  case Nil
  then show ?case by auto
next
  case (Cons c cs)
  obtain a sa where a: "retry_loop env url (make_payload cfg t c) [0, 1, 2] st = (a, sa)"
    by (cases "retry_loop env url (make_payload cfg t c) [0, 1, 2] st")
  from retry_loop_posted[OF a]
  have pa: "set (posted (trace sa)) \<subseteq> insert t (set (posted (trace st)))"
    by (simp add: make_payload_def)
  show ?case
  proof (cases "a = Ok True")
    case True
    with Cons.prems a have "sync_chunks env url cfg t cs sa = (res, st')"
      by (simp del: retry_loop.simps)
    from Cons.IH[OF this] pa show ?thesis by blast
  next
    case False
    with Cons.prems a have "posted (trace st') = posted (trace sa)"
      by (auto simp del: retry_loop.simps split: result.splits if_splits)
    with pa show ?thesis by simp
  qed
qed

lemma sync_tables_posted:
  "sync_tables env url cfg dat ts st = (res, st') \<Longrightarrow>
   set (posted (trace st')) \<subseteq> snd ` set ts \<union> set (posted (trace st))"
proof (induction ts arbitrary: st)
  case Nil
  then show ?case by auto
next
  case (Cons it ts)
  obtain i t where it: "it = (i, t)" by (cases it)
  show ?case
  proof (cases "dat t")
    case None
    with Cons.prems it have "sync_tables env url cfg dat ts st = (res, st')" by simp
    from Cons.IH[OF this] show ?thesis by auto
  next
    case (Some rows)
    show ?thesis
    proof (cases "rows = []")
      case True
      with Cons.prems it Some
      have "sync_tables env url cfg dat ts (emit (Print (NoData i t)) st) = (res, st')" by simp
      from Cons.IH[OF this] show ?thesis by auto
    next
      case False
      define st1 where "st1 = emit (Print (Syncing i (length rows) t)) st"
      show ?thesis
      proof (cases "chunk_data rows 1000")
        case (Inl e)
        with Cons.prems it Some False have "st' = st1" by (simp add: st1_def)
        then show ?thesis by (auto simp: st1_def)
      next
        case (Inr chunks)
        obtain a sa where a: "sync_chunks env url cfg t chunks st1 = (a, sa)"
          by (cases "sync_chunks env url cfg t chunks st1")
        from sync_chunks_posted[OF a]
        have pa: "set (posted (trace sa)) \<subseteq> insert t (set (posted (trace st)))"
          by (simp add: st1_def)
        show ?thesis
        proof (cases "a = Ok None")
          case True
          with Cons.prems it Some False Inr a
          have "sync_tables env url cfg dat ts (emit (Print (Synced t)) sa) = (res, st')"
            by (simp add: st1_def)
          from Cons.IH[OF this] pa it show ?thesis by auto
        next
          case nf: False
          with Cons.prems it Some False Inr a have "st' = sa"
            by (auto simp: st1_def split: result.splits option.splits)
          with pa it show ?thesis by auto
        qed
      qed
    qed
  qed
qed

lemma sync_tables_append:
  "sync_tables env url cfg dat before st = (Ok None, st1) \<Longrightarrow>
   sync_tables env url cfg dat (before @ later) st = sync_tables env url cfg dat later st1"
proof (induction before arbitrary: st)
  case Nil
  then show ?case by simp
next
  case (Cons it ts)
  obtain i t where it: "it = (i, t)" by (cases it)
  from Cons.prems show ?case unfolding it
    by (auto simp: Let_def Cons.IH split: option.splits if_splits sum.splits prod.splits result.splits)
qed

lemma distinct_tables: "distinct (map snd (zip [1 ..< Suc (length tables_to_sync)] tables_to_sync))"
  by (simp add: tables_to_sync_def upt_conv_Cons)

text \<open>
  Claim C9.  A chunk failure ends the whole run, not only its table: when the tables
  before a table were synchronized, the chunks before one of its chunks were delivered
  and that chunk fails all three attempts, \<open>sync_data_to_api\<close> returns \<open>False\<close> with the
  trace of that moment, and no request for any later table of the fixed order occurs
  in the trace.
\<close>

theorem failed_chunk_aborts_run:
  assumes cfg: "api_url cfg = Some u"
    and split: "zip [1 ..< Suc (length tables_to_sync)] tables_to_sync = before @ (i, t) # later"
    and pre: "sync_tables env (u @ ''/api/sync'') cfg dat before initial_state = (Ok None, st0)"
    and rows: "dat t = Some rows" "rows \<noteq> []"
    and chunks: "chunk_data rows 1000 = Inr (done @ c # rest)"
    and sent: "sync_chunks env (u @ ''/api/sync'') cfg t done
                 (emit (Print (Syncing i (length rows) t)) st0) = (Ok None, st1)"
    and failed: "retry_loop env (u @ ''/api/sync'') (make_payload cfg t c) [0, 1, 2] st1 =
                   (Ok False, st2)"
  shows "sync_data_to_api dat cfg env =
           (Ok False, st2\<lparr>trace := trace st2 @ [Print (FailedToSync t)]\<rparr>)
       \<and> (\<forall>t' \<in> snd ` set later.
             t' \<notin> set (posted (trace (st2\<lparr>trace := trace st2 @ [Print (FailedToSync t)]\<rparr>))))"
proof -
  let ?url = "u @ ''/api/sync''"
  let ?end = "st2\<lparr>trace := trace st2 @ [Print (FailedToSync t)]\<rparr>"
  have ch: "sync_chunks env ?url cfg t (done @ c # rest)
              (emit (Print (Syncing i (length rows) t)) st0) = (Ok (Some False), ?end)"
    using sync_chunks_append[OF sent, of "c # rest"] sync_chunks_failed_chunk[OF failed, of rest]
    by (simp del: sync_chunks.simps retry_loop.simps)
  have "sync_tables env ?url cfg dat ((i, t) # later) st0 = (Ok (Some False), ?end)"
    using rows chunks ch by (simp del: sync_chunks.simps retry_loop.simps)
  then have tb: "sync_tables env ?url cfg dat (before @ (i, t) # later) initial_state =
      (Ok (Some False), ?end)"
    using sync_tables_append[OF pre, of "(i, t) # later"] by (simp del: sync_tables.simps)
  have run: "sync_data_to_api dat cfg env = (Ok False, ?end)"
    unfolding sync_data_to_api_def split using cfg tb by (simp del: sync_tables.simps)
  have p0: "set (posted (trace st0)) \<subseteq> snd ` set before"
    using sync_tables_posted[OF pre] by (simp add: initial_state_def)
  have p1: "set (posted (trace st1)) \<subseteq> insert t (snd ` set before)"
    using sync_chunks_posted[OF sent] p0 by auto
  have p2: "set (posted (trace st2)) \<subseteq> insert t (snd ` set before)"
    using retry_loop_posted[OF failed] p1 by (auto simp: make_payload_def)
  have pe: "posted (trace ?end) = posted (trace st2)"
    by (simp add: posted_append)
  have "distinct (map snd (before @ (i, t) # later))"
    using distinct_tables unfolding split .
  then have "\<forall>t' \<in> snd ` set later. t' \<notin> insert t (snd ` set before)"
    by auto
  with p2 pe have "\<forall>t' \<in> snd ` set later. t' \<notin> set (posted (trace ?end))"
    by auto
  with run show ?thesis by simp
qed

theorem failed_chunk_aborts_run_witness:
  "sync_data_to_api example_data example_config (\<lambda>k. Response server_error) =
     (Ok False,
      \<lparr>calls = 3,
       trace = [Print (Syncing 1 1 ''acc_product''),
                Post ''http://host/api/sync'' example_payload, Print (RetryStatus 1 500),
                Print (ResponseText ''Internal Server Error''), Sleep 2,
                Post ''http://host/api/sync'' example_payload, Print (RetryStatus 2 500),
                Print (ResponseText ''Internal Server Error''), Sleep 2,
                Post ''http://host/api/sync'' example_payload, Print (RetryStatus 3 500),
                Print (ResponseText ''Internal Server Error''), Sleep 2,
                Print (FailedToSync ''acc_product'')]\<rparr>)
   \<and> example_data ''acc_invmast'' = Some [example_row]
   \<and> ''acc_invmast'' \<notin> set (posted
        [Print (Syncing 1 1 ''acc_product''),
         Post ''http://host/api/sync'' example_payload, Print (RetryStatus 1 500),
         Print (ResponseText ''Internal Server Error''), Sleep 2,
         Post ''http://host/api/sync'' example_payload, Print (RetryStatus 2 500),
         Print (ResponseText ''Internal Server Error''), Sleep 2,
         Post ''http://host/api/sync'' example_payload, Print (RetryStatus 3 500),
         Print (ResponseText ''Internal Server Error''), Sleep 2,
         Print (FailedToSync ''acc_product'')])"
proof -
  let ?env = "\<lambda>k::nat. Response server_error"
  let ?url = "''http://host'' @ ''/api/sync''"
  define st1 where "st1 = emit (Print (Syncing 1 (length [example_row]) ''acc_product'')) initial_state"
  define st2 where "st2 = \<lparr>calls = 3,
       trace = [Print (Syncing 1 1 ''acc_product''),
                Post ''http://host/api/sync'' example_payload, Print (RetryStatus 1 500),
                Print (ResponseText ''Internal Server Error''), Sleep 2,
                Post ''http://host/api/sync'' example_payload, Print (RetryStatus 2 500),
                Print (ResponseText ''Internal Server Error''), Sleep 2,
                Post ''http://host/api/sync'' example_payload, Print (RetryStatus 3 500),
                Print (ResponseText ''Internal Server Error''), Sleep 2]\<rparr>"
  have cfg: "api_url example_config = Some ''http://host''" by (simp add: example_config_def)
  have split: "zip [1 ..< Suc (length tables_to_sync)] tables_to_sync =
      [] @ (1, ''acc_product'') # [(2, ''acc_invmast''), (3, ''acc_invdetails''),
      (4, ''acc_purchasemaster''), (5, ''acc_purchasedetails''), (6, ''acc_production''),
      (7, ''acc_productiondetails'')]"
    by (simp only: enumerate_tables append_Nil)
  have pre: "sync_tables ?env ?url example_config example_data [] initial_state =
      (Ok None, initial_state)" by simp
  have rows: "example_data ''acc_product'' = Some [example_row]" "[example_row] \<noteq> []"
    by (simp_all add: example_data_def)
  have chunks: "chunk_data [example_row] 1000 = Inr ([] @ [example_row] # [])"
    by (simp add: chunk_data_example)
  have sent: "sync_chunks ?env ?url example_config ''acc_product'' []
      (emit (Print (Syncing 1 (length [example_row]) ''acc_product'')) initial_state) =
      (Ok None, st1)" by (simp add: st1_def)
  have failed: "retry_loop ?env ?url (make_payload example_config ''acc_product'' [example_row])
      [0, 1, 2] st1 = (Ok False, st2)"
    by (simp add: make_payload_example attempt_server_error_example st1_def st2_def
        initial_state_def emit_def)
  have other: "example_data ''acc_invmast'' = Some [example_row]"
    by (simp add: example_data_def)
  from failed_chunk_aborts_run [OF cfg split pre rows chunks sent failed] other
  show ?thesis by (simp add: st2_def)
qed

section \<open>Properties of the diagnostics probe\<close>

lemma probe_endpoint_step:
  assumes "m = ''DELETE'' \<or> m = ''POST''"
  shows "probes (probe_endpoint env hops u (e, m, d) st) = Suc (probes st)
     \<and> sent (probe_endpoint env hops u (e, m, d) st) =
         sent st @ (OPTIONS, u @ e) #
           follow_redirects OPTIONS
             (take 30 (takeWhile (\<lambda>h. is_redirect (fst h)) (hops (probes st))))
     \<and> map endpoint (results (probe_endpoint env hops u (e, m, d) st)) =
         map endpoint (results st) @ [e]
     \<and> map status (results (probe_endpoint env hops u (e, m, d) st)) =
         map status (results st) @
           [case env (probes st) of
              Responded code body \<Rightarrow> if code < 500 then ''AVAILABLE'' else ''ERROR''
            | Failed err \<Rightarrow>
                if is_Timeout err then ''TIMEOUT''
                else if is_ConnectionError err then ''CONNECTION ERROR''
                else ''ERROR: '' @ error_text err]"
  using assms
  by (auto simp: probe_endpoint_def requests_options_def record_response_def handle_error_def
      record_error_def split: probe_outcome.splits)

lemma probe_all_run:
  assumes "\<forall>ep \<in> set eps. fst (snd ep) = ''DELETE'' \<or> fst (snd ep) = ''POST''"
  shows "probes (probe_all env hops u eps st) = probes st + length eps
     \<and> sent (probe_all env hops u eps st) =
         sent st @
           concat (map (\<lambda>i. (OPTIONS, u @ fst (eps ! i)) #
                          follow_redirects OPTIONS
                            (take 30 (takeWhile (\<lambda>h. is_redirect (fst h)) (hops (probes st + i)))))
                    [0 ..< length eps])
     \<and> map endpoint (results (probe_all env hops u eps st)) =
         map endpoint (results st) @ map fst eps
     \<and> map status (results (probe_all env hops u eps st)) =
         map status (results st) @
           map (\<lambda>i. case env (probes st + i) of
                  Responded code body \<Rightarrow> if code < 500 then ''AVAILABLE'' else ''ERROR''
                | Failed err \<Rightarrow>
                    if is_Timeout err then ''TIMEOUT''
                    else if is_ConnectionError err then ''CONNECTION ERROR''
                    else ''ERROR: '' @ error_text err) [0 ..< length eps]"
  using assms
proof (induction eps arbitrary: st)
  case Nil
  then show ?case by simp
next
  case (Cons ep eps)
  obtain e m d where ep: "ep = (e, m, d)" by (cases ep)
  from Cons.prems ep have m: "m = ''DELETE'' \<or> m = ''POST''" by simp
  from Cons.prems have rest: "\<forall>ep \<in> set eps. fst (snd ep) = ''DELETE'' \<or> fst (snd ep) = ''POST''"
    by simp
  note step = probe_endpoint_step[OF m, of env hops u e d st]
  note ih = Cons.IH[OF rest, of "probe_endpoint env hops u (e, m, d) st"]
  show ?case
    unfolding ep probe_all.simps
    using step ih
    by (simp add: map_upt_Suc del: upt_Suc)
qed

lemma endpoints_methods:
  "\<forall>ep \<in> set endpoints. fst (snd ep) = ''DELETE'' \<or> fst (snd ep) = ''POST''"
  by (simp add: endpoints_def)

lemma length_endpoints: "length endpoints = 8"
  by (simp add: endpoints_def)

lemma test_api_endpoints_run:
  assumes "api_url cfg = Some u" "api_key cfg = Some k"
  shows "snd (test_api_endpoints cfg env hops) = probe_all env hops u endpoints probe_start"
    and "fst (test_api_endpoints cfg env hops) =
          (\<forall>r \<in> set (results (probe_all env hops u endpoints probe_start)).
             status r = ''AVAILABLE'')"
  using assms by (auto simp: test_api_endpoints_def Let_def filter_empty_conv)

lemma follow_redirects_verbs:
  "verb = OPTIONS \<or> verb = GET \<Longrightarrow>
   \<forall>req \<in> set (follow_redirects verb hs). fst req = OPTIONS \<or> fst req = GET"
proof (induction hs arbitrary: verb)
  case Nil
  then show ?case by simp
next
  case (Cons h hs)
  obtain code loc where h: "h = (code, loc)" by (cases h)
  have v: "rebuild_method code verb = OPTIONS \<or> rebuild_method code verb = GET"
    using Cons.prems by (auto simp: rebuild_method_def)
  from Cons.IH[OF v] v show ?case by (simp add: h)
qed

text \<open>
  Claim C6.  In a probe run over the eight fixed endpoints each endpoint gets one
  result, in order: \<open>AVAILABLE\<close> when its response has a status below 500, \<open>ERROR\<close> when
  the status is 500 or more, \<open>TIMEOUT\<close> on a timeout of the transport layer and
  \<open>CONNECTION ERROR\<close> on a connection failure that is not a timeout; and the probe
  returns true exactly when every result is \<open>AVAILABLE\<close>.
\<close>

theorem probe_classification:
  assumes "api_url cfg = Some u" "api_key cfg = Some k"
  shows "length (results (snd (test_api_endpoints cfg env hops))) = 8
     \<and> (\<forall>i<8.
           endpoint (results (snd (test_api_endpoints cfg env hops)) ! i) = fst (endpoints ! i)
         \<and> (\<forall>code body. env i = Responded code body \<longrightarrow>
               (code < 500 \<longrightarrow>
                  status (results (snd (test_api_endpoints cfg env hops)) ! i) = ''AVAILABLE'')
             \<and> (500 \<le> code \<longrightarrow>
                  status (results (snd (test_api_endpoints cfg env hops)) ! i) = ''ERROR''))
         \<and> (\<forall>err. env i = Failed err \<and> is_Timeout err \<longrightarrow>
               status (results (snd (test_api_endpoints cfg env hops)) ! i) = ''TIMEOUT'')
         \<and> (\<forall>err. env i = Failed err \<and> is_ConnectionError err \<and> \<not> is_Timeout err \<longrightarrow>
               status (results (snd (test_api_endpoints cfg env hops)) ! i) = ''CONNECTION ERROR''))
     \<and> fst (test_api_endpoints cfg env hops) =
         (\<forall>r \<in> set (results (snd (test_api_endpoints cfg env hops))). status r = ''AVAILABLE'')"
proof -
  let ?rs = "results (snd (test_api_endpoints cfg env hops))"
  let ?f = "\<lambda>i. case env i of
                  Responded code body \<Rightarrow> if code < 500 then ''AVAILABLE'' else ''ERROR''
                | Failed err \<Rightarrow>
                    if is_Timeout err then ''TIMEOUT''
                    else if is_ConnectionError err then ''CONNECTION ERROR''
                    else ''ERROR: '' @ error_text err"
  note run = probe_all_run[OF endpoints_methods, of env hops u probe_start]
  have s: "snd (test_api_endpoints cfg env hops) = probe_all env hops u endpoints probe_start"
    by (rule test_api_endpoints_run(1)[OF assms])
  have ends: "map endpoint ?rs = map fst endpoints"
    using run by (simp add: s probe_start_def)
  have stats: "map status ?rs = map ?f [0 ..< 8]"
    using run by (simp add: s probe_start_def length_endpoints)
  have len: "length ?rs = 8"
    using ends length_endpoints by (metis length_map)
  have e: "endpoint (?rs ! i) = fst (endpoints ! i)" if "i < 8" for i
    using that len length_endpoints ends by (metis nth_map)
  have st: "status (?rs ! i) = ?f i" if "i < 8" for i
  proof -
    have "status (?rs ! i) = map status ?rs ! i" using that len by simp
    also have "\<dots> = map ?f [0 ..< 8] ! i" by (simp only: stats)
    also have "\<dots> = ?f i" using that by (simp del: upt_Suc)
    finally show ?thesis .
  qed
  have cls: "(\<forall>code body. env i = Responded code body \<longrightarrow>
               (code < 500 \<longrightarrow> status (?rs ! i) = ''AVAILABLE'')
             \<and> (500 \<le> code \<longrightarrow> status (?rs ! i) = ''ERROR''))
         \<and> (\<forall>err. env i = Failed err \<and> is_Timeout err \<longrightarrow> status (?rs ! i) = ''TIMEOUT'')
         \<and> (\<forall>err. env i = Failed err \<and> is_ConnectionError err \<and> \<not> is_Timeout err \<longrightarrow>
               status (?rs ! i) = ''CONNECTION ERROR'')" if "i < 8" for i
    using st[OF that] by auto
  have all: "fst (test_api_endpoints cfg env hops) = (\<forall>r \<in> set ?rs. status r = ''AVAILABLE'')"
    using test_api_endpoints_run(2)[OF assms, of env hops] by (simp only: s)
  from len e cls all show ?thesis by blast
qed

theorem probe_classification_witness:
  "api_url example_config = Some ''http://host'' \<and> api_key example_config = Some ''secret''
   \<and> status (results (snd (test_api_endpoints example_config
         (\<lambda>i. if i = 2 then Failed ReadTimeout else Responded 200 ''ok'') no_redirects)) ! 2) = ''TIMEOUT''
   \<and> status (results (snd (test_api_endpoints example_config
         (\<lambda>i. if i = 2 then Failed ReadTimeout else Responded 200 ''ok'') no_redirects)) ! 0) = ''AVAILABLE''
   \<and> \<not> fst (test_api_endpoints example_config
         (\<lambda>i. if i = 2 then Failed ReadTimeout else Responded 200 ''ok'') no_redirects)"
proof -
  let ?env = "\<lambda>i::nat. if i = 2 then Failed ReadTimeout else Responded 200 ''ok''"
  let ?rs = "results (snd (test_api_endpoints example_config ?env no_redirects))"
  have cfg: "api_url example_config = Some ''http://host''"
    "api_key example_config = Some ''secret''"
    by (simp_all add: example_config_def)
  note c = probe_classification [OF cfg, of ?env no_redirects]
  from c have len: "length ?rs = 8" by blast
  from c have two: "\<forall>err. ?env 2 = Failed err \<and> is_Timeout err \<longrightarrow> status (?rs ! 2) = ''TIMEOUT''"
    by (simp del: One_nat_def)
  then have t: "status (?rs ! 2) = ''TIMEOUT''" by simp
  from c have zero: "\<forall>code body. ?env 0 = Responded code body \<longrightarrow>
        (code < 500 \<longrightarrow> status (?rs ! 0) = ''AVAILABLE'')"
    by (simp del: One_nat_def)
  then have a: "status (?rs ! 0) = ''AVAILABLE''" by simp
  from c have "fst (test_api_endpoints example_config ?env no_redirects) =
      (\<forall>r \<in> set ?rs. status r = ''AVAILABLE'')" by blast
  moreover have "?rs ! 2 \<in> set ?rs" using len by simp
  ultimately have "\<not> fst (test_api_endpoints example_config ?env no_redirects)" using t by auto
  with cfg t a show ?thesis by blast
qed

text \<open>
  Claim C7.  The claim says that every request the probe sends is an \<open>OPTIONS\<close> request.
  The first endpoint of the run below answers with a 302 redirect, and the library
  follows it with a \<open>GET\<close> request.
\<close>

theorem probe_redirect_sends_get:
  "sent (snd (test_api_endpoints example_config all_ok login_redirect)) =
     [(OPTIONS, ''http://host/api/sync/products/clear''), (GET, ''http://host/login''),
      (OPTIONS, ''http://host/api/sync/products''),
      (OPTIONS, ''http://host/api/sync/productbatches/clear''),
      (OPTIONS, ''http://host/api/sync/productbatches''),
      (OPTIONS, ''http://host/api/sync/masters/clear''),
      (OPTIONS, ''http://host/api/sync/masters''),
      (OPTIONS, ''http://host/api/sync/users/clear''),
      (OPTIONS, ''http://host/api/sync/users'')]"
  by code_simp

text \<open>
  Claim C7, amended.  The probe never sends a \<open>DELETE\<close> or \<open>POST\<close> request: every request
  of a run is an \<open>OPTIONS\<close> or a \<open>GET\<close> request; a run over the eight fixed endpoints
  sends one \<open>OPTIONS\<close> request to each of them, to the \<open>DELETE\<close> endpoints as well, each
  followed only by the requests with which the library follows redirects; and where no
  endpoint redirects, exactly those eight \<open>OPTIONS\<close> requests are sent.
\<close>

theorem probe_sends_no_destructive_verb:
  "(\<forall>req \<in> set (sent (snd (test_api_endpoints cfg env hops))).
      fst req = OPTIONS \<or> fst req = GET)
   \<and> (api_url cfg = Some u \<and> api_key cfg = Some k \<longrightarrow>
        sent (snd (test_api_endpoints cfg env hops)) =
          concat (map (\<lambda>i. (OPTIONS, u @ fst (endpoints ! i)) #
                         follow_redirects OPTIONS
                           (take 30 (takeWhile (\<lambda>h. is_redirect (fst h)) (hops i))))
                   [0 ..< 8]))
   \<and> (api_url cfg = Some u \<and> api_key cfg = Some k \<and> (\<forall>i<8. hops i = []) \<longrightarrow>
        sent (snd (test_api_endpoints cfg env hops)) =
          [(OPTIONS, u @ ''/api/sync/products/clear''), (OPTIONS, u @ ''/api/sync/products''),
           (OPTIONS, u @ ''/api/sync/productbatches/clear''),
           (OPTIONS, u @ ''/api/sync/productbatches''),
           (OPTIONS, u @ ''/api/sync/masters/clear''), (OPTIONS, u @ ''/api/sync/masters''),
           (OPTIONS, u @ ''/api/sync/users/clear''), (OPTIONS, u @ ''/api/sync/users'')])"
proof -
  let ?hop = "\<lambda>i. follow_redirects OPTIONS
                      (take 30 (takeWhile (\<lambda>h. is_redirect (fst h)) (hops i)))"
  have run: "sent (probe_all env hops v endpoints probe_start) =
      concat (map (\<lambda>i. (OPTIONS, v @ fst (endpoints ! i)) # ?hop i) [0 ..< 8])" for v
    using probe_all_run[OF endpoints_methods, of env hops v probe_start]
    by (simp add: probe_start_def length_endpoints del: upt_Suc)
  have verbs: "\<forall>req \<in> set (concat (map (\<lambda>i. (OPTIONS, v @ fst (endpoints ! i)) # ?hop i)
      [0 ..< 8])). fst req = OPTIONS \<or> fst req = GET" for v
    using follow_redirects_verbs[of OPTIONS] by (auto simp del: upt_Suc)
  have ps: "sent probe_start = []" by (simp add: probe_start_def)
  have a: "\<forall>req \<in> set (sent (snd (test_api_endpoints cfg env hops))).
      fst req = OPTIONS \<or> fst req = GET"
  proof (cases "api_url cfg")
    case None
    then show ?thesis by (simp add: test_api_endpoints_def ps)
  next
    case (Some v)
    show ?thesis
    proof (cases "api_key cfg")
      case None
      with Some show ?thesis by (simp add: test_api_endpoints_def ps)
    next
      case (Some k')
      from test_api_endpoints_run(1)[OF \<open>api_url cfg = Some v\<close> Some, of env hops] verbs[of v]
      show ?thesis by (simp only: run)
    qed
  qed
  have b: "sent (snd (test_api_endpoints cfg env hops)) =
      concat (map (\<lambda>i. (OPTIONS, u @ fst (endpoints ! i)) # ?hop i) [0 ..< 8])"
    if "api_url cfg = Some u" "api_key cfg = Some k"
    using test_api_endpoints_run(1)[OF that, of env hops] run[of u] by simp
  have c: "sent (snd (test_api_endpoints cfg env hops)) =
          [(OPTIONS, u @ ''/api/sync/products/clear''), (OPTIONS, u @ ''/api/sync/products''),
           (OPTIONS, u @ ''/api/sync/productbatches/clear''),
           (OPTIONS, u @ ''/api/sync/productbatches''),
           (OPTIONS, u @ ''/api/sync/masters/clear''), (OPTIONS, u @ ''/api/sync/masters''),
           (OPTIONS, u @ ''/api/sync/users/clear''), (OPTIONS, u @ ''/api/sync/users'')]"
    if "api_url cfg = Some u" "api_key cfg = Some k" "\<forall>i<8. hops i = []"
  proof -
    have "?hop i = []" if "i < 8" for i using \<open>\<forall>i<8. hops i = []\<close> that by simp
    then have "concat (map (\<lambda>i. (OPTIONS, u @ fst (endpoints ! i)) # ?hop i) [0 ..< 8]) =
        concat (map (\<lambda>i. [(OPTIONS, u @ fst (endpoints ! i))]) [0 ..< 8])"
      by (intro arg_cong[where f = concat] map_cong) auto
    also have "\<dots> = [(OPTIONS, u @ ''/api/sync/products/clear''), (OPTIONS, u @ ''/api/sync/products''),
           (OPTIONS, u @ ''/api/sync/productbatches/clear''),
           (OPTIONS, u @ ''/api/sync/productbatches''),
           (OPTIONS, u @ ''/api/sync/masters/clear''), (OPTIONS, u @ ''/api/sync/masters''),
           (OPTIONS, u @ ''/api/sync/users/clear''), (OPTIONS, u @ ''/api/sync/users'')]"
      by (simp add: endpoints_def upt_conv_Cons)
    finally show ?thesis using b[OF that(1,2)] by simp
  qed
  from a b c show ?thesis by blast
qed

theorem probe_sends_no_destructive_verb_witness:
  "api_url example_config = Some ''http://host'' \<and> api_key example_config = Some ''secret''
   \<and> no_redirects 0 = []
   \<and> sent (snd (test_api_endpoints example_config all_ok no_redirects)) =
       [(OPTIONS, ''http://host/api/sync/products/clear''),
        (OPTIONS, ''http://host/api/sync/products''),
        (OPTIONS, ''http://host/api/sync/productbatches/clear''),
        (OPTIONS, ''http://host/api/sync/productbatches''),
        (OPTIONS, ''http://host/api/sync/masters/clear''),
        (OPTIONS, ''http://host/api/sync/masters''),
        (OPTIONS, ''http://host/api/sync/users/clear''),
        (OPTIONS, ''http://host/api/sync/users'')]
   \<and> (DELETE, ''http://host/api/sync/products/clear'') \<notin>
        set (sent (snd (test_api_endpoints example_config all_ok login_redirect)))
   \<and> (POST, ''http://host/api/sync/products'') \<notin>
        set (sent (snd (test_api_endpoints example_config all_ok login_redirect)))"
proof -
  have cfg: "api_url example_config = Some ''http://host''"
    "api_key example_config = Some ''secret''"
    by (simp_all add: example_config_def)
  have nr: "\<forall>i<8. no_redirects i = []" by (simp add: no_redirects_def)
  from probe_sends_no_destructive_verb [of example_config all_ok no_redirects "''http://host''" "''secret''"]
  have "api_url example_config = Some ''http://host'' \<and> api_key example_config = Some ''secret''
        \<and> (\<forall>i<8. no_redirects i = []) \<longrightarrow>
      sent (snd (test_api_endpoints example_config all_ok no_redirects)) =
       [(OPTIONS, ''http://host'' @ ''/api/sync/products/clear''),
        (OPTIONS, ''http://host'' @ ''/api/sync/products''),
        (OPTIONS, ''http://host'' @ ''/api/sync/productbatches/clear''),
        (OPTIONS, ''http://host'' @ ''/api/sync/productbatches''),
        (OPTIONS, ''http://host'' @ ''/api/sync/masters/clear''),
        (OPTIONS, ''http://host'' @ ''/api/sync/masters''),
        (OPTIONS, ''http://host'' @ ''/api/sync/users/clear''),
        (OPTIONS, ''http://host'' @ ''/api/sync/users'')]"
    by blast
  with cfg nr
  have "sent (snd (test_api_endpoints example_config all_ok no_redirects)) =
       [(OPTIONS, ''http://host'' @ ''/api/sync/products/clear''),
        (OPTIONS, ''http://host'' @ ''/api/sync/products''),
        (OPTIONS, ''http://host'' @ ''/api/sync/productbatches/clear''),
        (OPTIONS, ''http://host'' @ ''/api/sync/productbatches''),
        (OPTIONS, ''http://host'' @ ''/api/sync/masters/clear''),
        (OPTIONS, ''http://host'' @ ''/api/sync/masters''),
        (OPTIONS, ''http://host'' @ ''/api/sync/users/clear''),
        (OPTIONS, ''http://host'' @ ''/api/sync/users'')]"
    by blast
  then have s: "sent (snd (test_api_endpoints example_config all_ok no_redirects)) =
       [(OPTIONS, ''http://host/api/sync/products/clear''),
        (OPTIONS, ''http://host/api/sync/products''),
        (OPTIONS, ''http://host/api/sync/productbatches/clear''),
        (OPTIONS, ''http://host/api/sync/productbatches''),
        (OPTIONS, ''http://host/api/sync/masters/clear''),
        (OPTIONS, ''http://host/api/sync/masters''),
        (OPTIONS, ''http://host/api/sync/users/clear''),
        (OPTIONS, ''http://host/api/sync/users'')]"
    by simp
  from probe_sends_no_destructive_verb [of example_config all_ok login_redirect]
  have "\<forall>req \<in> set (sent (snd (test_api_endpoints example_config all_ok login_redirect))).
      fst req = OPTIONS \<or> fst req = GET"
    by blast
  then have d: "(DELETE, ''http://host/api/sync/products/clear'') \<notin>
        set (sent (snd (test_api_endpoints example_config all_ok login_redirect)))"
    and p: "(POST, ''http://host/api/sync/products'') \<notin>
        set (sent (snd (test_api_endpoints example_config all_ok login_redirect)))"
    by auto
  have n0: "no_redirects 0 = []" by (simp add: no_redirects_def)
  from cfg n0 s d p show ?thesis by blast
qed

end
